theory Spec2Isabelle
  imports Main "HOL-Library.Multiset"
begin

section \<open>Python values and failures\<close>

text \<open>
  The game is one Python class, \<open>Sudoku\<close>, in \<open>src/sudoku.py\<close>. Its methods index
  lists, convert a key string with \<open>int\<close>, assert, and draw on a curses window; each of
  these can raise, and a raise is a value of the model. Python integers are unbounded, so they are \<open>int\<close>;
  \<open>//\<close> and \<open>%\<close> round towards minus infinity, as \<open>div\<close> and \<open>mod\<close> on \<open>int\<close> do.
\<close>

datatype error = IndexError | TypeError | ValueError | AssertionError | CursesError

definition ebind :: "error + 'a \<Rightarrow> ('a \<Rightarrow> error + 'b) \<Rightarrow> error + 'b" where
  "ebind m f = (case m of Inl e \<Rightarrow> Inl e | Inr v \<Rightarrow> f v)"

text \<open>\<open>xs[i]\<close>: a negative index counts from the end, an index out of range raises.\<close>

definition py_index :: "'a list \<Rightarrow> int \<Rightarrow> error + 'a" where
  "py_index xs i =
     (let n = int (length xs); k = (if i < 0 then i + n else i)
      in if 0 \<le> k \<and> k < n then Inr (xs ! nat k) else Inl IndexError)"

text \<open>\<open>xs[i] = v\<close>, with the same index rule.\<close>

definition py_store :: "'a list \<Rightarrow> int \<Rightarrow> 'a \<Rightarrow> error + 'a list" where
  "py_store xs i v =
     (let n = int (length xs); k = (if i < 0 then i + n else i)
      in if 0 \<le> k \<and> k < n then Inr (xs[nat k := v]) else Inl IndexError)"

text \<open>\<open>range(a, b)\<close> with step one.\<close>

definition py_range :: "int \<Rightarrow> int \<Rightarrow> int list" where
  "py_range a b = [a..b - 1]"

text \<open>
  A list comprehension \<open>[f(k) for k in ks]\<close> whose element expression can raise: the
  elements are computed left to right and the first failure is the result.
\<close>

fun traverse :: "('a \<Rightarrow> error + 'b) \<Rightarrow> 'a list \<Rightarrow> error + 'b list" where
  "traverse f [] = Inr []"
| "traverse f (x # xs) = ebind (f x) (\<lambda>v. ebind (traverse f xs) (\<lambda>vs. Inr (v # vs)))"

subsection \<open>\<open>int(s)\<close> on a string\<close>

text \<open>
  A \<open>char\<close> stands for a code point below 256. \<open>int\<close> strips white space on both
  sides (the code points 9 to 13, 32, 133 and 160), takes one optional sign, and then wants
  decimal digits, where single underscores may stand between two digits; anything else
  raises \<open>ValueError\<close>, and so does a literal of more digits than the interpreter's
  limit, 4300 unless configured otherwise.
\<close>

definition max_str_digits :: nat where
  "max_str_digits = 4300"

definition py_isspace :: "char \<Rightarrow> bool" where
  "py_isspace c =
     (let n = (of_char c :: nat)
      in (9 \<le> n \<and> n \<le> 13) \<or> n = 32 \<or> n = 133 \<or> n = 160)"

definition is_ascii_digit :: "char \<Rightarrow> bool" where
  "is_ascii_digit c = (let n = (of_char c :: nat) in 48 \<le> n \<and> n \<le> 57)"

definition digit_val :: "char \<Rightarrow> int" where
  "digit_val c = int (of_char c) - 48"

definition digits_value :: "string \<Rightarrow> int" where
  "digits_value ds = foldl (\<lambda>a c. 10 * a + digit_val c) 0 ds"

fun adjacent_underscores :: "string \<Rightarrow> bool" where
  "adjacent_underscores (a # b # r) =
     ((a = CHR ''_'' \<and> b = CHR ''_'') \<or> adjacent_underscores (b # r))"
| "adjacent_underscores _ = False"

definition literal_char :: "char \<Rightarrow> bool" where
  "literal_char c = (is_ascii_digit c \<or> c = CHR ''_'')"

definition py_int :: "string \<Rightarrow> error + int" where
  "py_int s =
     (let t = dropWhile py_isspace s;
          neg = (t \<noteq> [] \<and> hd t = CHR ''-'');
          u = (if t \<noteq> [] \<and> (hd t = CHR ''-'' \<or> hd t = CHR ''+'') then tl t else t);
          body = takeWhile literal_char u;
          rest = dropWhile literal_char u
      in if body = [] \<or> hd body = CHR ''_'' \<or> last body = CHR ''_''
            \<or> adjacent_underscores body \<or> \<not> list_all py_isspace rest
            \<or> max_str_digits < length (filter is_ascii_digit body)
         then Inl ValueError
         else Inr ((if neg then - 1 else 1) * digits_value (filter is_ascii_digit body)))"

text \<open>
  \<open>c.isdigit()\<close> on one character: besides the ten decimal digits it holds for the
  superscripts two, three and one (code points 178, 179 and 185), which \<open>int\<close> rejects.
\<close>

definition py_isdigit :: "char \<Rightarrow> bool" where
  "py_isdigit c =
     (let n = (of_char c :: nat) in (48 \<le> n \<and> n \<le> 57) \<or> n = 178 \<or> n = 179 \<or> n = 185)"

section \<open>The game state\<close>

text \<open>
  The fields of \<open>Sudoku\<close> that the game logic reads and writes. \<open>initial_board\<close> is the
  decoded JSON answer of the puzzle service and \<open>board\<close> its \<open>deepcopy\<close>: no row object
  is shared, neither between the two boards nor inside one, so a board is a value, a
  list of rows.

  \<open>stdscr\<close> is the curses window. Of it the model keeps the cursor (what \<open>move\<close> sets
  and \<open>getyx\<close> reads) and the strings written by \<open>addch\<close>. The window spans the
  terminal, whose size \<open>__init__\<close> stores in \<open>height\<close> and \<open>width\<close>: its rows are
  \<open>0\<close> to \<open>height - 1\<close>, its columns \<open>0\<close> to \<open>width - 1\<close>.
\<close>

type_synonym grid = "int list list"

record sudoku =
  height :: int
  width :: int
  initial_board :: grid
  board :: grid
  cursor :: "int \<times> int"
  screen :: "(int \<times> int) \<rightharpoonup> string"

definition in_window :: "sudoku \<Rightarrow> int \<Rightarrow> int \<Rightarrow> bool" where
  "in_window g y x = (0 \<le> y \<and> y < height g \<and> 0 \<le> x \<and> x < width g)"

text \<open>\<open>stdscr.move(y, x)\<close> raises \<open>curses.error\<close> for a position outside the window.\<close>

definition move :: "sudoku \<Rightarrow> int \<Rightarrow> int \<Rightarrow> error + sudoku" where
  "move g y x = (if in_window g y x then Inr (g\<lparr>cursor := (y, x)\<rparr>) else Inl CursesError)"

text \<open>
  \<open>stdscr.addch(y, x, s)\<close> first converts its argument and raises \<open>TypeError\<close> for a
  string that is not one character. It raises \<open>curses.error\<close> for a position outside the
  window, and also in the lower right corner, where the character is drawn but the cursor
  cannot advance. Elsewhere it draws and puts the cursor one column on, or at the start
  of the next row after the last column. The game passes a decimal digit or a blank.
\<close>

definition addch :: "sudoku \<Rightarrow> int \<Rightarrow> int \<Rightarrow> string \<Rightarrow> error + sudoku" where
  "addch g y x s =
     (if length s \<noteq> 1 then Inl TypeError
      else if \<not> in_window g y x then Inl CursesError
      else if y = height g - 1 \<and> x = width g - 1 then Inl CursesError
      else Inr (g\<lparr>screen := (screen g)((y, x) \<mapsto> s),
                  cursor := (if x = width g - 1 then (y + 1, 0) else (y, x + 1))\<rparr>))"

text \<open>
  \<open>__init__\<close>: the terminal size, the fetched puzzle, its deep copy; \<open>play\<close> then puts
  the cursor on \<open>(1, 1)\<close> before it reads the first key.
\<close>

definition new_game :: "grid \<Rightarrow> int \<Rightarrow> int \<Rightarrow> sudoku" where
  "new_game puzzle lines columns =
     \<lparr>height = lines, width = columns, initial_board = puzzle, board = puzzle,
      cursor = (1, 1), screen = Map.empty\<rparr>"

text \<open>\<open>b[i][j]\<close> and \<open>b[i][j] = v\<close> on a list of rows.\<close>

definition cell :: "grid \<Rightarrow> int \<Rightarrow> int \<Rightarrow> error + int" where
  "cell b i j = ebind (py_index b i) (\<lambda>row. py_index row j)"

definition set_cell :: "grid \<Rightarrow> int \<Rightarrow> int \<Rightarrow> int \<Rightarrow> error + grid" where
  "set_cell b i j v =
     ebind (py_index b i) (\<lambda>row. ebind (py_store row j v) (\<lambda>row'. py_store b i row'))"

section \<open>Screen positions\<close>

definition is_safe_pos :: "sudoku \<Rightarrow> int \<Rightarrow> int \<Rightarrow> bool" where
  "is_safe_pos g y x = (0 \<le> y \<and> y \<le> height g \<and> 0 \<le> x \<and> x \<le> width g - 2)"

definition is_on_grid :: "sudoku \<Rightarrow> int \<Rightarrow> int \<Rightarrow> bool" where
  "is_on_grid g y x =
     (if \<not> is_safe_pos g y x then False
      else if \<not> (0 \<le> y \<and> y \<le> 12) \<or> \<not> (0 \<le> x \<and> x \<le> 12) then False
      else x mod 4 \<noteq> 0 \<and> y mod 4 \<noteq> 0)"

text \<open>
  \<open>yx_to_ij\<close> answers a pair of indices, or the pair \<open>(None, None)\<close> off the grid; the
  latter is \<open>None\<close> here. Subscripting a list with that \<open>None\<close> raises \<open>TypeError\<close>.
\<close>

definition yx_to_ij :: "sudoku \<Rightarrow> int \<Rightarrow> int \<Rightarrow> (int \<times> int) option" where
  "yx_to_ij g y x =
     (if \<not> is_on_grid g y x then None
      else Some ((y - 1) - (y div 4), (x - 1) - (x div 4)))"

definition is_on_initial :: "sudoku \<Rightarrow> int \<Rightarrow> int \<Rightarrow> error + bool" where
  "is_on_initial g y x =
     (case yx_to_ij g y x of
        None \<Rightarrow> Inl TypeError
      | Some (i, j) \<Rightarrow> ebind (cell (initial_board g) i j) (\<lambda>v. Inr (v \<noteq> 0)))"

section \<open>Play actions\<close>

definition try_move :: "sudoku \<Rightarrow> int \<Rightarrow> int \<Rightarrow> string \<Rightarrow> error + sudoku" where
  "try_move g y x dir =
     (if is_on_grid g y x then move g y x
      else if dir = ''KEY_UP'' \<and> is_on_grid g (y - 1) x then move g (y - 1) x
      else if dir = ''KEY_DOWN'' \<and> is_on_grid g (y + 1) x then move g (y + 1) x
      else if dir = ''KEY_LEFT'' \<and> is_on_grid g y (x - 1) then move g y (x - 1)
      else if dir = ''KEY_RIGHT'' \<and> is_on_grid g y (x + 1) then move g y (x + 1)
      else Inr g)"

text \<open>The three collections \<open>try_place\<close> searches for the number.\<close>

definition this_col :: "grid \<Rightarrow> int \<Rightarrow> error + int list" where
  "this_col b j = traverse (\<lambda>k. cell b k j) (py_range 0 9)"

definition this_square :: "grid \<Rightarrow> int \<Rightarrow> int \<Rightarrow> error + int list" where
  "this_square b i j =
     traverse (\<lambda>(k, l). cell b k l)
       (List.product (py_range (i div 3 * 3) (i div 3 * 3 + 3))
                     (py_range (j div 3 * 3) (j div 3 * 3 + 3)))"

definition try_place :: "sudoku \<Rightarrow> int \<Rightarrow> int \<Rightarrow> string \<Rightarrow> error + sudoku" where
  "try_place g y x num =
     (if \<not> is_on_grid g y x then Inr g
      else ebind (is_on_initial g y x) (\<lambda>given.
        if given then Inr g
        else (case yx_to_ij g y x of
           None \<Rightarrow> Inl TypeError
         | Some (i, j) \<Rightarrow>
             ebind (py_index (board g) i) (\<lambda>this_row.
             ebind (this_col (board g) j) (\<lambda>col.
             ebind (this_square (board g) i j) (\<lambda>square.
             ebind (py_int num) (\<lambda>numint.
               if numint \<in> set this_row \<or> numint \<in> set col \<or> numint \<in> set square
               then Inr g
               else ebind (addch g y x num) (\<lambda>g1.
                    ebind (set_cell (board g1) i j numint) (\<lambda>b.
                      move (g1\<lparr>board := b\<rparr>) y x)))))))))"

definition try_del :: "sudoku \<Rightarrow> int \<Rightarrow> int \<Rightarrow> error + sudoku" where
  "try_del g y x =
     (if \<not> is_on_grid g y x then Inr g
      else ebind (is_on_initial g y x) (\<lambda>given.
        if given then Inr g
        else (case yx_to_ij g y x of
           None \<Rightarrow> Inl TypeError
         | Some (i, j) \<Rightarrow>
             ebind (addch g y x '' '') (\<lambda>g1.
             ebind (set_cell (board g1) i j 0) (\<lambda>b.
               move (g1\<lparr>board := b\<rparr>) y x)))))"

section \<open>Completion\<close>

text \<open>
  Each loop of \<open>is_completed\<close> is a recursion over the indices still to visit. The result
  \<open>Inr False\<close> is the loop's \<open>return False\<close>, \<open>Inr True\<close> is the loop running to its
  end, \<open>Inl\<close> a raise.
\<close>

definition digits :: "int list" where
  "digits = py_range 1 10"

fun all_filled :: "grid \<Rightarrow> (int \<times> int) list \<Rightarrow> error + bool" where
  "all_filled b [] = Inr True"
| "all_filled b ((i, j) # ps) =
     ebind (cell b i j) (\<lambda>v.
       if v = 0 then Inr False
       else if v \<in> set digits then all_filled b ps
       else Inl AssertionError)"

fun lines_ok :: "grid \<Rightarrow> int list \<Rightarrow> error + bool" where
  "lines_ok b [] = Inr True"
| "lines_ok b (i # is) =
     ebind (traverse (\<lambda>j. ebind (cell b i j) (\<lambda>r. ebind (cell b j i) (\<lambda>c. Inr (r, c))))
              (py_range 0 9)) (\<lambda>rc.
       let row = set (map fst rc); col = set (map snd rc)
       in if card row \<noteq> 9 \<or> card col \<noteq> 9 \<or> \<Sum> row \<noteq> 45 \<or> \<Sum> col \<noteq> 45
          then Inr False
          else lines_ok b is)"

text \<open>
  The box loops run \<open>k\<close> and \<open>l\<close> over \<open>range(0, 9, 3)\<close>, that is over 0, 3 and 6, with
  \<open>l\<close> the inner one.
\<close>

fun squares_ok :: "grid \<Rightarrow> (int \<times> int) list \<Rightarrow> error + bool" where
  "squares_ok b [] = Inr True"
| "squares_ok b ((k, l) # kls) =
     ebind (traverse (\<lambda>(i, j). cell b i j)
              (List.product (py_range k (k + 3)) (py_range l (l + 3)))) (\<lambda>vs.
       let square = set vs
       in if card square \<noteq> 9 \<or> \<Sum> square \<noteq> 45 then Inr False
          else squares_ok b kls)"

definition is_completed :: "sudoku \<Rightarrow> bool \<Rightarrow> error + bool" where
  "is_completed g deep_check =
     ebind (all_filled (board g) (List.product (py_range 0 9) (py_range 0 9))) (\<lambda>full.
       if \<not> full then Inr False
       else if deep_check then
         ebind (lines_ok (board g) (py_range 0 9)) (\<lambda>ok.
           if \<not> ok then Inr False
           else squares_ok (board g) (List.product [0, 3, 6] [0, 3, 6]))
       else Inr True)"

section \<open>The game loop\<close>

text \<open>
  One pass of the loop of \<open>play\<close> on the key \<open>c\<close> that \<open>getkey\<close> returned: the cursor
  is read with \<open>getyx\<close>, and the key is dispatched. The pass ends the loop with
  \<open>"quit"\<close> on the escape key and with \<open>"win"\<close> when a digit key completed the board.
\<close>

datatype outcome = Quit | Win

definition play_step :: "sudoku \<Rightarrow> string \<Rightarrow> error + sudoku \<times> outcome option" where
  "play_step g c =
     (let (y, x) = cursor g
      in if c = [CHR 0x1B] then Inr (g, Some Quit)
         else if c = ''KEY_UP'' then ebind (try_move g (y - 1) x c) (\<lambda>g'. Inr (g', None))
         else if c = ''KEY_DOWN'' then ebind (try_move g (y + 1) x c) (\<lambda>g'. Inr (g', None))
         else if c = ''KEY_LEFT'' then ebind (try_move g y (x - 1) c) (\<lambda>g'. Inr (g', None))
         else if c = ''KEY_RIGHT'' then ebind (try_move g y (x + 1) c) (\<lambda>g'. Inr (g', None))
         else if length c = 1 \<and> list_all py_isdigit c \<and> c \<noteq> ''0'' then
           ebind (try_place g y x c) (\<lambda>g'.
           ebind (is_completed g' True) (\<lambda>done.
             Inr (g', if done then Some Win else None)))
         else if c = ''KEY_BACKSPACE'' \<or> c = [CHR 0x08] \<or> c = [CHR 0x7F] then
           ebind (try_del g y x) (\<lambda>g'. Inr (g', None))
         else Inr (g, None))"

section \<open>Vocabulary of the specification\<close>

text \<open>
  The notions the claims are written in, over natural-number indices of a board of nine
  rows of nine cells. They are independent of the functions above.
\<close>

definition wf_grid :: "grid \<Rightarrow> bool" where
  "wf_grid b = (length b = 9 \<and> list_all (\<lambda>row. length row = 9) b)"

definition cells_in :: "grid \<Rightarrow> int \<Rightarrow> int \<Rightarrow> bool" where
  "cells_in b lo hi = list_all (list_all (\<lambda>v. lo \<le> v \<and> v \<le> hi)) b"

definition in_row :: "grid \<Rightarrow> nat \<Rightarrow> int \<Rightarrow> bool" where
  "in_row b i d = (\<exists>j\<in>{0..<9}. b ! i ! j = d)"

definition in_col :: "grid \<Rightarrow> nat \<Rightarrow> int \<Rightarrow> bool" where
  "in_col b j d = (\<exists>i\<in>{0..<9}. b ! i ! j = d)"

definition in_box :: "grid \<Rightarrow> nat \<Rightarrow> nat \<Rightarrow> int \<Rightarrow> bool" where
  "in_box b i j d =
     (\<exists>a\<in>{0..<3}. \<exists>c\<in>{0..<3}. b ! (i div 3 * 3 + a) ! (j div 3 * 3 + c) = d)"

definition conflict :: "grid \<Rightarrow> nat \<Rightarrow> nat \<Rightarrow> int \<Rightarrow> bool" where
  "conflict b i j d = (in_row b i d \<or> in_col b j d \<or> in_box b i j d)"

text \<open>The board with the one cell \<open>(i, j)\<close> replaced.\<close>

definition put :: "grid \<Rightarrow> nat \<Rightarrow> nat \<Rightarrow> int \<Rightarrow> grid" where
  "put b i j v = b[i := (b ! i)[j := v]]"

text \<open>What a successful edit at screen position \<open>(y, x)\<close> leaves behind.\<close>

definition edited :: "sudoku \<Rightarrow> int \<Rightarrow> int \<Rightarrow> string \<Rightarrow> grid \<Rightarrow> sudoku" where
  "edited g y x s b = g\<lparr>board := b, cursor := (y, x), screen := (screen g)((y, x) \<mapsto> s)\<rparr>"

text \<open>The key of the digit \<open>d\<close>: the one character that \<open>str(d)\<close> is for \<open>d\<close> from 0 to 9.\<close>

definition digit_key :: "int \<Rightarrow> string" where
  "digit_key d = [char_of (48 + d)]"

text \<open>
  A move key as a unit step, and the specification's \<open>nextPlayablePosition\<close>: the
  requested neighbour if it is playable, else the position one further unit on if that
  is playable, else no move.
\<close>

definition toward :: "string \<Rightarrow> (int \<times> int) option" where
  "toward dir =
     (if dir = ''KEY_UP'' then Some (- 1, 0)
      else if dir = ''KEY_DOWN'' then Some (1, 0)
      else if dir = ''KEY_LEFT'' then Some (0, - 1)
      else if dir = ''KEY_RIGHT'' then Some (0, 1)
      else None)"

definition next_playable_position ::
    "sudoku \<Rightarrow> int \<times> int \<Rightarrow> int \<times> int \<Rightarrow> (int \<times> int) option" where
  "next_playable_position g pos step =
     (let (y, x) = pos; (dy, dx) = step
      in if is_on_grid g y x then Some (y, x)
         else if is_on_grid g (y + dy) (x + dx) then Some (y + dy, x + dx)
         else None)"

text \<open>
  The playable screen positions as the claims describe them, without the viewport, and
  the map from a board index back to a screen coordinate.
\<close>

definition playable :: "int \<Rightarrow> int \<Rightarrow> bool" where
  "playable y x = (0 \<le> y \<and> y \<le> 12 \<and> 0 \<le> x \<and> x \<le> 12 \<and> y mod 4 \<noteq> 0 \<and> x mod 4 \<noteq> 0)"

definition to_screen :: "int \<Rightarrow> int" where
  "to_screen i = i + i div 3 + 1"

text \<open>
  A full board, and the 27 units of a board: its nine rows, nine columns and nine aligned
  3x3 boxes, each as the list of its nine values.
\<close>

definition full :: "grid \<Rightarrow> bool" where
  "full b = (\<forall>i\<in>{0..<9}. \<forall>j\<in>{0..<9}. b ! i ! j \<noteq> 0)"

definition unit_row :: "grid \<Rightarrow> nat \<Rightarrow> int list" where
  "unit_row b i = map (\<lambda>j. b ! i ! j) [0..<9]"

definition unit_col :: "grid \<Rightarrow> nat \<Rightarrow> int list" where
  "unit_col b j = map (\<lambda>i. b ! i ! j) [0..<9]"

definition unit_box :: "grid \<Rightarrow> nat \<Rightarrow> nat \<Rightarrow> int list" where
  "unit_box b k l =
     map (\<lambda>(a, c). b ! (3 * k + a) ! (3 * l + c)) (List.product [0..<3] [0..<3])"

definition units :: "grid \<Rightarrow> int list list" where
  "units b =
     map (unit_row b) [0..<9] @ map (unit_col b) [0..<9]
     @ map (\<lambda>(k, l). unit_box b k l) (List.product [0..<3] [0..<3])"

section \<open>A puzzle to run the game on\<close>

definition demo_puzzle :: grid where
  "demo_puzzle =
     [[5, 3, 0, 0, 7, 0, 0, 0, 0],
      [6, 0, 0, 1, 9, 5, 0, 0, 0],
      [0, 9, 8, 0, 0, 0, 0, 6, 0],
      [8, 0, 0, 0, 6, 0, 0, 0, 3],
      [4, 0, 0, 8, 0, 3, 0, 0, 1],
      [7, 0, 0, 0, 2, 0, 0, 0, 6],
      [0, 6, 0, 0, 0, 0, 2, 8, 0],
      [0, 0, 0, 4, 1, 9, 0, 0, 5],
      [0, 0, 0, 0, 8, 0, 0, 7, 9]]"

definition demo_solution :: grid where
  "demo_solution =
     [[5, 3, 4, 6, 7, 8, 9, 1, 2],
      [6, 7, 2, 1, 9, 5, 3, 4, 8],
      [1, 9, 8, 3, 4, 2, 5, 6, 7],
      [8, 5, 9, 7, 6, 1, 4, 2, 3],
      [4, 2, 6, 8, 5, 3, 7, 9, 1],
      [7, 1, 3, 9, 2, 4, 8, 5, 6],
      [9, 6, 1, 5, 3, 7, 2, 8, 4],
      [2, 8, 7, 4, 1, 9, 6, 3, 5],
      [3, 4, 5, 2, 8, 6, 1, 7, 9]]"

definition demo :: sudoku where
  "demo = new_game demo_puzzle 24 80"

text \<open>A game whose player board is completely and correctly filled.\<close>

definition solved_game :: sudoku where
  "solved_game = (new_game demo_puzzle 24 80)\<lparr>board := demo_solution\<rparr>"



section \<open>Sequences of play actions\<close>

text \<open>
  The states a game can be in after any number of calls of \<open>try_move\<close>, \<open>try_place\<close>
  and \<open>try_del\<close> with any arguments. A call that raises ends the program and leads to no
  further state.
\<close>

inductive reachable :: "sudoku \<Rightarrow> sudoku \<Rightarrow> bool" for g0 :: sudoku where
  start: "reachable g0 g0"
| by_move: "reachable g0 g \<Longrightarrow> try_move g y x dir = Inr g' \<Longrightarrow> reachable g0 g'"
| by_place: "reachable g0 g \<Longrightarrow> try_place g y x num = Inr g' \<Longrightarrow> reachable g0 g'"
| by_del: "reachable g0 g \<Longrightarrow> try_del g y x = Inr g' \<Longrightarrow> reachable g0 g'"

text \<open>The demonstration game after the digit 4 was placed on screen position \<open>(1, 3)\<close>.\<close>

definition demo_played :: sudoku where
  "demo_played = edited demo 1 3 ''4'' (put (board demo) 0 2 4)"

section \<open>Basic facts\<close>

lemma ebind_simps [simp]:
  "ebind (Inl e) f = Inl e"
  "ebind (Inr v) f = f v"
  by (simp_all add: ebind_def)

lemma range_0_9: "py_range 0 9 = [0, 1, 2, 3, 4, 5, 6, 7, 8]"
  by (simp add: py_range_def upto.simps)

lemma set_py_range: "set (py_range a b) = {k. a \<le> k \<and> k < b}"
  by (auto simp: py_range_def)

lemma py_index_in_range:
  "0 \<le> i \<Longrightarrow> i < int (length xs) \<Longrightarrow> py_index xs i = Inr (xs ! nat i)"
  by (simp add: py_index_def)

lemma py_store_in_range:
  "0 \<le> i \<Longrightarrow> i < int (length xs) \<Longrightarrow> py_store xs i v = Inr (xs[nat i := v])"
  by (simp add: py_store_def)

lemma wf_grid_row: "wf_grid b \<Longrightarrow> n < 9 \<Longrightarrow> length (b ! n) = 9"
  by (simp add: wf_grid_def list_all_length)

lemma cell_wf:
  assumes "wf_grid b" "0 \<le> i" "i < 9" "0 \<le> j" "j < 9"
  shows "cell b i j = Inr (b ! nat i ! nat j)"
proof -
  have "length b = 9" using assms(1) by (simp add: wf_grid_def)
  moreover have "length (b ! nat i) = 9" using assms by (simp add: wf_grid_row)
  ultimately show ?thesis using assms by (simp add: cell_def py_index_in_range)
qed

lemma set_cell_wf:
  assumes "wf_grid b" "0 \<le> i" "i < 9" "0 \<le> j" "j < 9"
  shows "set_cell b i j v = Inr (put b (nat i) (nat j) v)"
proof -
  have "length b = 9" using assms(1) by (simp add: wf_grid_def)
  moreover have "length (b ! nat i) = 9" using assms by (simp add: wf_grid_row)
  ultimately show ?thesis
    using assms by (simp add: set_cell_def put_def py_index_in_range py_store_in_range)
qed

lemma traverse_all_Inr:
  "(\<And>x. x \<in> set xs \<Longrightarrow> f x = Inr (h x)) \<Longrightarrow> traverse f xs = Inr (map h xs)"
  by (induction xs) simp_all

subsection \<open>Positions on the grid have indices from 0 to 8\<close>

lemma on_grid_index:
  assumes "is_on_grid g y x"
  shows "\<exists>i j. yx_to_ij g y x = Some (i, j) \<and> 0 \<le> i \<and> i < 9 \<and> 0 \<le> j \<and> j < 9"
proof -
  from assms have b: "0 \<le> y" "y \<le> 12" "0 \<le> x" "x \<le> 12" "y mod 4 \<noteq> 0" "x mod 4 \<noteq> 0"
    by (auto simp: is_on_grid_def split: if_splits)
  have "0 \<le> (y - 1) - y div 4 \<and> (y - 1) - y div 4 < 9" using b by presburger
  moreover have "0 \<le> (x - 1) - x div 4 \<and> (x - 1) - x div 4 < 9" using b by presburger
  ultimately show ?thesis using assms by (simp add: yx_to_ij_def)
qed

lemma yx_to_ij_SomeD:
  "yx_to_ij g y x = Some (i, j) \<Longrightarrow> is_on_grid g y x \<and> 0 \<le> i \<and> i < 9 \<and> 0 \<le> j \<and> j < 9"
  using on_grid_index[of g y x] by (auto simp: yx_to_ij_def split: if_splits)

lemma off_grid_None: "\<not> is_on_grid g y x \<Longrightarrow> yx_to_ij g y x = None"
  by (simp add: yx_to_ij_def)

subsection \<open>The collections that \<open>try_place\<close> searches\<close>

lemma this_col_wf:
  assumes "wf_grid b" "0 \<le> j" "j < 9"
  shows "this_col b j = Inr (map (\<lambda>k. b ! nat k ! nat j) (py_range 0 9))"
  unfolding this_col_def
  by (rule traverse_all_Inr) (use assms in \<open>simp add: set_py_range cell_wf\<close>)

lemma this_square_wf:
  assumes "wf_grid b" "0 \<le> i" "i < 9" "0 \<le> j" "j < 9"
  shows "this_square b i j = Inr (map (\<lambda>(k, l). b ! nat k ! nat l)
     (List.product (py_range (i div 3 * 3) (i div 3 * 3 + 3))
                   (py_range (j div 3 * 3) (j div 3 * 3 + 3))))"
  unfolding this_square_def
proof (rule traverse_all_Inr)
  fix p assume "p \<in> set (List.product (py_range (i div 3 * 3) (i div 3 * 3 + 3))
                   (py_range (j div 3 * 3) (j div 3 * 3 + 3)))"
  then obtain k l where p: "p = (k, l)" and k: "i div 3 * 3 \<le> k" "k < i div 3 * 3 + 3"
    and l: "j div 3 * 3 \<le> l" "l < j div 3 * 3 + 3"
    by (auto simp: set_py_range)
  have "0 \<le> k \<and> k < 9" using k assms by presburger
  moreover have "0 \<le> l \<and> l < 9" using l assms by presburger
  ultimately show "(case p of (k, l) \<Rightarrow> cell b k l) = Inr (case p of (k, l) \<Rightarrow> b ! nat k ! nat l)"
    using assms(1) p by (simp add: cell_wf)
qed

lemma row_member:
  assumes "wf_grid b" "i < 9"
  shows "d \<in> set (b ! i) \<longleftrightarrow> in_row b i d"
proof -
  have "length (b ! i) = 9" using assms by (rule wf_grid_row)
  then show ?thesis by (auto simp: in_row_def in_set_conv_nth)
qed

lemma col_member:
  "d \<in> set (map (\<lambda>k. b ! nat k ! j) (py_range 0 9)) \<longleftrightarrow> in_col b j d"
proof
  assume "d \<in> set (map (\<lambda>k. b ! nat k ! j) (py_range 0 9))"
  then obtain k where "0 \<le> k" "k < 9" "b ! nat k ! j = d" by (auto simp: set_py_range)
  then have "nat k \<in> {0..<9} \<and> b ! nat k ! j = d" by simp
  then show "in_col b j d" unfolding in_col_def by blast
next
  assume "in_col b j d"
  then obtain n where n: "n < 9" "b ! n ! j = d" by (auto simp: in_col_def)
  then have "int n \<in> set (py_range 0 9) \<and> b ! nat (int n) ! j = d" by (simp add: set_py_range)
  then show "d \<in> set (map (\<lambda>k. b ! nat k ! j) (py_range 0 9))" by (metis (mono_tags, lifting) image_eqI set_map)
qed

lemma box_member:
  assumes "0 \<le> i" "0 \<le> j"
  shows "d \<in> set (map (\<lambda>(k, l). b ! nat k ! nat l)
           (List.product (py_range (i div 3 * 3) (i div 3 * 3 + 3))
                         (py_range (j div 3 * 3) (j div 3 * 3 + 3))))
         \<longleftrightarrow> in_box b (nat i) (nat j) d"
proof -
  have I: "nat (i div 3 * 3) = nat i div 3 * 3" using assms(1)
    by (simp add: nat_div_distrib nat_mult_distrib)
  have J: "nat (j div 3 * 3) = nat j div 3 * 3" using assms(2)
    by (simp add: nat_div_distrib nat_mult_distrib)
  have I0: "0 \<le> i div 3 * 3" and J0: "0 \<le> j div 3 * 3" using assms by simp_all
  show ?thesis
  proof
    assume "d \<in> set (map (\<lambda>(k, l). b ! nat k ! nat l)
           (List.product (py_range (i div 3 * 3) (i div 3 * 3 + 3))
                         (py_range (j div 3 * 3) (j div 3 * 3 + 3))))"
    then obtain k l where k: "i div 3 * 3 \<le> k" "k < i div 3 * 3 + 3"
      and l: "j div 3 * 3 \<le> l" "l < j div 3 * 3 + 3" and d: "b ! nat k ! nat l = d"
      by (auto simp: set_py_range)
    define a where "a = nat (k - i div 3 * 3)"
    define c where "c = nat (l - j div 3 * 3)"
    have "nat k = nat i div 3 * 3 + a" using k I0 I unfolding a_def by linarith
    moreover have "nat l = nat j div 3 * 3 + c" using l J0 J unfolding c_def by linarith
    moreover have "a \<in> {0..<3}" "c \<in> {0..<3}" using k l unfolding a_def c_def by auto
    ultimately show "in_box b (nat i) (nat j) d" using d unfolding in_box_def by metis
  next
    assume "in_box b (nat i) (nat j) d"
    then obtain a c where ac: "a < 3" "c < 3"
      and d: "b ! (nat i div 3 * 3 + a) ! (nat j div 3 * 3 + c) = d"
      by (auto simp: in_box_def)
    define k where "k = i div 3 * 3 + int a"
    define l where "l = j div 3 * 3 + int c"
    have "nat k = nat i div 3 * 3 + a" using I0 I unfolding k_def by linarith
    moreover have "nat l = nat j div 3 * 3 + c" using J0 J unfolding l_def by linarith
    moreover have "(k, l) \<in> set (List.product (py_range (i div 3 * 3) (i div 3 * 3 + 3))
                         (py_range (j div 3 * 3) (j div 3 * 3 + 3)))"
      using ac by (simp add: set_py_range k_def l_def)
    ultimately show "d \<in> set (map (\<lambda>(k, l). b ! nat k ! nat l)
           (List.product (py_range (i div 3 * 3) (i div 3 * 3 + 3))
                         (py_range (j div 3 * 3) (j div 3 * 3 + 3))))"
      using d by force
  qed
qed

subsection \<open>Drawing on a position of the grid\<close>

text \<open>
  A position on the grid is inside the window unless it is the row \<open>y = height\<close>, which
  \<open>is_safe_pos\<close> lets through; it is never in the last column.
\<close>

lemma on_grid_window:
  assumes "is_on_grid g y x"
  shows "in_window g y x = (y \<noteq> height g)" and "x \<noteq> width g - 1"
  using assms by (auto simp: is_on_grid_def is_safe_pos_def in_window_def split: if_splits)

lemma in_window_fields [simp]:
  "in_window (g\<lparr>board := b\<rparr>) y x = in_window g y x"
  "in_window (g\<lparr>cursor := c\<rparr>) y x = in_window g y x"
  "in_window (g\<lparr>screen := s\<rparr>) y x = in_window g y x"
  by (simp_all add: in_window_def)

lemma addch_on_grid:
  assumes "is_on_grid g y x"
  shows "addch g y x s =
     (if length s \<noteq> 1 then Inl TypeError
      else if y = height g then Inl CursesError
      else Inr (g\<lparr>screen := (screen g)((y, x) \<mapsto> s), cursor := (y, x + 1)\<rparr>))"
  using on_grid_window[OF assms] by (simp add: addch_def)

lemma move_on_grid:
  assumes "is_on_grid g y x" "height g' = height g" "width g' = width g"
  shows "move g' y x = (if y = height g then Inl CursesError else Inr (g'\<lparr>cursor := (y, x)\<rparr>))"
  using on_grid_window(1)[OF assms(1)] assms(2,3) by (simp add: move_def in_window_def)

subsection \<open>The two edits on a well-formed game\<close>

lemma is_on_initial_wf:
  assumes "wf_grid (initial_board g)" "yx_to_ij g y x = Some (i, j)"
  shows "is_on_initial g y x = Inr (initial_board g ! nat i ! nat j \<noteq> 0)"
  using assms yx_to_ij_SomeD[OF assms(2)] by (simp add: is_on_initial_def cell_wf)

lemma draw_and_store:
  assumes "is_on_grid g y x" "set_cell (board g) i j v = Inr b"
  shows "ebind (addch g y x s) (\<lambda>g1. ebind (set_cell (board g1) i j v) (\<lambda>b. move (g1\<lparr>board := b\<rparr>) y x))
     = (if length s \<noteq> 1 then Inl TypeError
        else if y = height g then Inl CursesError
        else Inr (edited g y x s b))"
  using assms(2)
  by (simp add: addch_on_grid[OF assms(1)] move_on_grid[OF assms(1)] edited_def)

lemma try_place_wf:
  assumes "wf_grid (initial_board g)" "wf_grid (board g)" "yx_to_ij g y x = Some (i, j)"
  shows "try_place g y x num =
     (if initial_board g ! nat i ! nat j \<noteq> 0 then Inr g
      else ebind (py_int num) (\<lambda>d.
        if conflict (board g) (nat i) (nat j) d then Inr g
        else if length num \<noteq> 1 then Inl TypeError
        else if y = height g then Inl CursesError
        else Inr (edited g y x num (put (board g) (nat i) (nat j) d))))"
proof -
  note ij = yx_to_ij_SomeD[OF assms(3)]
  have len: "length (board g) = 9" using assms(2) by (simp add: wf_grid_def)
  have row: "py_index (board g) i = Inr (board g ! nat i)"
    using ij len by (simp add: py_index_in_range)
  have mem: "(d \<in> set (board g ! nat i)
      \<or> d \<in> set (map (\<lambda>k. board g ! nat k ! nat j) (py_range 0 9))
      \<or> d \<in> set (map (\<lambda>(k, l). board g ! nat k ! nat l)
           (List.product (py_range (i div 3 * 3) (i div 3 * 3 + 3))
                         (py_range (j div 3 * 3) (j div 3 * 3 + 3)))))
     \<longleftrightarrow> conflict (board g) (nat i) (nat j) d" for d
  proof -
    have "nat i < 9" using ij by linarith
    then show ?thesis
      unfolding conflict_def using ij
      by (simp only: col_member box_member row_member[OF assms(2)])
  qed
  have sc: "set_cell (board g) i j v = Inr (put (board g) (nat i) (nat j) v)" for v
    using ij by (simp add: set_cell_wf[OF assms(2)])
  have og: "is_on_grid g y x" using ij by simp
  note ds = draw_and_store[OF og sc]
  show ?thesis
    unfolding try_place_def
    using ij assms(3)
    by (simp add: is_on_initial_wf[OF assms(1,3)] row this_col_wf[OF assms(2)]
        this_square_wf[OF assms(2)] mem ds
        del: set_map cong: if_cong)
qed

lemma try_del_wf:
  assumes "wf_grid (initial_board g)" "wf_grid (board g)" "yx_to_ij g y x = Some (i, j)"
  shows "try_del g y x =
     (if initial_board g ! nat i ! nat j \<noteq> 0 then Inr g
      else if y = height g then Inl CursesError
      else Inr (edited g y x '' '' (put (board g) (nat i) (nat j) 0)))"
proof -
  note ij = yx_to_ij_SomeD[OF assms(3)]
  have sc: "set_cell (board g) i j 0 = Inr (put (board g) (nat i) (nat j) 0)"
    using ij by (simp add: set_cell_wf[OF assms(2)])
  have og: "is_on_grid g y x" using ij by simp
  show ?thesis
    unfolding try_del_def
    using ij assms(3)
    by (simp add: is_on_initial_wf[OF assms(1,3)] draw_and_store[OF og sc])
qed

lemma try_place_off_grid: "\<not> is_on_grid g y x \<Longrightarrow> try_place g y x num = Inr g"
  by (simp add: try_place_def)

lemma try_del_off_grid: "\<not> is_on_grid g y x \<Longrightarrow> try_del g y x = Inr g"
  by (simp add: try_del_def)

text \<open>
  \<open>try_move\<close> follows the specification's rule wherever row 11 belongs to the window.
\<close>

lemma try_move_rule:
  assumes "toward dir = Some step" "12 \<le> height g"
  shows "try_move g y x dir =
           Inr (case next_playable_position g (y, x) step of
                  Some p \<Rightarrow> g\<lparr>cursor := p\<rparr>
                | None \<Rightarrow> g)"
proof -
  have mv: "move g y' x' = Inr (g\<lparr>cursor := (y', x')\<rparr>)" if "is_on_grid g y' x'" for y' x'
  proof -
    have "y' \<le> 12 \<and> y' mod 4 \<noteq> 0" using that by (auto simp: is_on_grid_def split: if_splits)
    then have "y' \<noteq> 12" by auto
    with \<open>y' \<le> 12 \<and> y' mod 4 \<noteq> 0\<close> have "y' \<noteq> height g" using assms(2) by linarith
    then show ?thesis using move_on_grid[OF that, of g] by simp
  qed
  show ?thesis
    using assms(1)
    by (auto simp: toward_def try_move_def next_playable_position_def mv split: if_splits)
qed

lemma wf_demo: "wf_grid (initial_board demo)" "wf_grid (board demo)"
  by (simp_all add: demo_def new_game_def demo_puzzle_def wf_grid_def)

lemma demo_1_3: "yx_to_ij demo 1 3 = Some (0, 2)"
  by (simp add: yx_to_ij_def is_on_grid_def is_safe_pos_def demo_def new_game_def)

lemma digit_key_value:
  assumes "1 \<le> d" "d \<le> 9"
  shows "py_int (digit_key d) = Inr d" and "length (digit_key d) = 1"
proof -
  have "d \<in> set [1..9]" using assms by simp
  then have "d \<in> {1, 2, 3, 4, 5, 6, 7, 8, 9}" by (simp add: upto.simps)
  moreover have "py_int (digit_key 1) = Inr 1" "py_int (digit_key 2) = Inr 2"
    "py_int (digit_key 3) = Inr 3" "py_int (digit_key 4) = Inr 4" "py_int (digit_key 5) = Inr 5"
    "py_int (digit_key 6) = Inr 6" "py_int (digit_key 7) = Inr 7" "py_int (digit_key 8) = Inr 8"
    "py_int (digit_key 9) = Inr 9"
    by code_simp+
  ultimately show "py_int (digit_key d) = Inr d" by auto
  show "length (digit_key d) = 1" by (simp add: digit_key_def)
qed

text \<open>
  Placing the key of a digit on an editable cell, and erasing one, where the row of the
  position belongs to the window.
\<close>

lemma try_place_digit_key:
  assumes "wf_grid (initial_board g)" "wf_grid (board g)"
    and "yx_to_ij g y x = Some (i, j)" "initial_board g ! nat i ! nat j = 0"
    and "1 \<le> d" "d \<le> 9" "y < height g"
  shows "try_place g y x (digit_key d) =
     Inr (if conflict (board g) (nat i) (nat j) d then g
          else edited g y x (digit_key d) (put (board g) (nat i) (nat j) d))"
  using assms(4,7) digit_key_value[OF assms(5,6)]
  by (simp add: try_place_wf[OF assms(1,2,3)])

lemma try_del_editable:
  assumes "wf_grid (initial_board g)" "wf_grid (board g)"
    and "yx_to_ij g y x = Some (i, j)" "initial_board g ! nat i ! nat j = 0" "y < height g"
  shows "try_del g y x = Inr (edited g y x '' '' (put (board g) (nat i) (nat j) 0))"
  using assms(4,5) by (simp add: try_del_wf[OF assms(1,2,3)])

subsection \<open>Edits that are turned down\<close>

text \<open>
  Off the grid, on a given cell and on a conflict the edits return the game as it was,
  and draw nothing. The number a cell holds is in its own row, so placing it again is a
  conflict. The right key pressed in column 11 asks for column 12, and moves nothing.
\<close>

lemma rejections_are_silent:
  assumes "wf_grid (initial_board g)" and "wf_grid (board g)"
  shows "(\<not> is_on_grid g y x \<longrightarrow>
            yx_to_ij g y x = None \<and> try_place g y x num = Inr g \<and> try_del g y x = Inr g)
     \<and> (\<forall>i j. yx_to_ij g y x = Some (i, j) \<and> initial_board g ! nat i ! nat j \<noteq> 0 \<longrightarrow>
            try_place g y x num = Inr g \<and> try_del g y x = Inr g)
     \<and> (\<forall>i j d. yx_to_ij g y x = Some (i, j) \<and> py_int num = Inr d
            \<and> conflict (board g) (nat i) (nat j) d \<longrightarrow> try_place g y x num = Inr g)"
proof (intro conjI allI impI)
  assume "\<not> is_on_grid g y x"
  then show "yx_to_ij g y x = None" "try_place g y x num = Inr g" "try_del g y x = Inr g"
    by (simp_all add: off_grid_None try_place_off_grid try_del_off_grid)
next
  fix i j
  assume a: "yx_to_ij g y x = Some (i, j) \<and> initial_board g ! nat i ! nat j \<noteq> 0"
  then have ij: "yx_to_ij g y x = Some (i, j)" by simp
  show "try_place g y x num = Inr g" using a by (simp add: try_place_wf[OF assms ij])
  show "try_del g y x = Inr g" using a by (simp add: try_del_wf[OF assms ij])
next
  fix i j d
  assume a: "yx_to_ij g y x = Some (i, j) \<and> py_int num = Inr d
      \<and> conflict (board g) (nat i) (nat j) d"
  then have ij: "yx_to_ij g y x = Some (i, j)" by simp
  show "try_place g y x num = Inr g" using a by (simp add: try_place_wf[OF assms ij])
qed

lemma own_value_rejected:
  assumes "wf_grid (initial_board g)" and "wf_grid (board g)"
    and "yx_to_ij g y x = Some (i, j)"
    and "py_int num = Inr (board g ! nat i ! nat j)"
  shows "try_place g y x num = Inr g"
proof -
  have "nat j < 9" using yx_to_ij_SomeD[OF assms(3)] by linarith
  then have "in_row (board g) (nat i) (board g ! nat i ! nat j)"
    unfolding in_row_def by auto
  then show ?thesis
    using assms(4) by (simp add: try_place_wf[OF assms(1,2,3)] conflict_def)
qed

lemma right_edge: "try_move g y 12 ''KEY_RIGHT'' = Inr g"
  by (simp add: try_move_def is_on_grid_def)

subsection \<open>What an edit can change, on any game\<close>

lemma ebind_InrD: "ebind m f = Inr r \<Longrightarrow> \<exists>v. m = Inr v \<and> f v = Inr r"
  by (cases m) simp_all

lemma cell_InrD:
  assumes "cell b i j = Inr v" "0 \<le> i" "0 \<le> j"
  shows "b ! nat i ! nat j = v"
  using assms by (auto simp: cell_def py_index_def ebind_def Let_def split: sum.splits if_splits)

lemma set_cell_InrD:
  assumes "set_cell b i j v = Inr b'" "0 \<le> i" "0 \<le> j"
  shows "b' = put b (nat i) (nat j) v"
  using assms
  by (auto simp: set_cell_def put_def py_index_def py_store_def ebind_def Let_def
      split: sum.splits if_splits)

lemma is_on_initial_FalseD:
  assumes "is_on_initial g y x = Inr False" "yx_to_ij g y x = Some (i, j)"
  shows "initial_board g ! nat i ! nat j = 0"
proof -
  from assms obtain v where "cell (initial_board g) i j = Inr v" "v = 0"
    by (auto simp: is_on_initial_def ebind_def split: sum.splits)
  then show ?thesis using cell_InrD yx_to_ij_SomeD[OF assms(2)] by blast
qed

lemma move_InrD: "move g y x = Inr g' \<Longrightarrow> g' = g\<lparr>cursor := (y, x)\<rparr>"
  by (auto simp: move_def split: if_splits)

lemma addch_InrD:
  "addch g y x s = Inr g1 \<Longrightarrow> \<exists>c. g1 = g\<lparr>screen := (screen g)((y, x) \<mapsto> s), cursor := c\<rparr>"
  by (auto simp: addch_def split: if_splits)

text \<open>The three steps of an accepted edit: draw, store, put the cursor back.\<close>

lemma draw_store_InrD:
  assumes "ebind (addch g y x s) (\<lambda>g1.
             ebind (set_cell (board g1) i j v) (\<lambda>b. move (g1\<lparr>board := b\<rparr>) y x)) = Inr g'"
    and "0 \<le> i" "0 \<le> j"
  shows "g' = edited g y x s (put (board g) (nat i) (nat j) v)"
proof -
  from ebind_InrD[OF assms(1)] obtain g1 where a: "addch g y x s = Inr g1"
    and r: "ebind (set_cell (board g1) i j v) (\<lambda>b. move (g1\<lparr>board := b\<rparr>) y x) = Inr g'"
    by (elim exE conjE)
  from addch_InrD[OF a] obtain c where g1: "g1 = g\<lparr>screen := (screen g)((y, x) \<mapsto> s), cursor := c\<rparr>"
    by (elim exE)
  from ebind_InrD[OF r] obtain b where sc: "set_cell (board g1) i j v = Inr b"
    and m: "move (g1\<lparr>board := b\<rparr>) y x = Inr g'"
    by (elim exE conjE)
  have "board g1 = board g" by (simp add: g1)
  then have b: "b = put (board g) (nat i) (nat j) v"
    using set_cell_InrD[OF sc assms(2,3)] by simp
  show ?thesis using move_InrD[OF m] by (simp add: g1 b edited_def)
qed

lemma try_place_InrD:
  assumes "try_place g y x num = Inr g'"
  shows "g' = g \<or> (\<exists>i j d. yx_to_ij g y x = Some (i, j) \<and> initial_board g ! nat i ! nat j = 0
            \<and> g' = edited g y x num (put (board g) (nat i) (nat j) d))"
proof (cases "is_on_grid g y x")
  case False
  then show ?thesis using assms by (simp add: try_place_def)
next
  case True
  then obtain i j where ij: "yx_to_ij g y x = Some (i, j)" "0 \<le> i" "0 \<le> j"
    using on_grid_index by blast
  show ?thesis
  proof (cases "is_on_initial g y x")
    case (Inl e)
    then show ?thesis using assms True by (simp add: try_place_def)
  next
    case (Inr given)
    show ?thesis
    proof (cases given)
      case True
      then show ?thesis using assms Inr \<open>is_on_grid g y x\<close> by (simp add: try_place_def)
    next
      case False
      with Inr have "is_on_initial g y x = Inr False" by simp
      then have z: "initial_board g ! nat i ! nat j = 0"
        using ij(1) by (rule is_on_initial_FalseD)
      have "try_place g y x num =
          ebind (py_index (board g) i) (\<lambda>this_row.
          ebind (this_col (board g) j) (\<lambda>col.
          ebind (this_square (board g) i j) (\<lambda>square.
          ebind (py_int num) (\<lambda>numint.
            if numint \<in> set this_row \<or> numint \<in> set col \<or> numint \<in> set square
            then Inr g
            else ebind (addch g y x num) (\<lambda>g1.
                 ebind (set_cell (board g1) i j numint) (\<lambda>b.
                   move (g1\<lparr>board := b\<rparr>) y x))))))"
        using True Inr False ij(1) by (simp add: try_place_def cong: if_cong)
      with assms have e1: "ebind (py_index (board g) i) (\<lambda>this_row.
          ebind (this_col (board g) j) (\<lambda>col.
          ebind (this_square (board g) i j) (\<lambda>square.
          ebind (py_int num) (\<lambda>numint.
            if numint \<in> set this_row \<or> numint \<in> set col \<or> numint \<in> set square
            then Inr g
            else ebind (addch g y x num) (\<lambda>g1.
                 ebind (set_cell (board g1) i j numint) (\<lambda>b.
                   move (g1\<lparr>board := b\<rparr>) y x)))))) = Inr g'"
        by simp
      from ebind_InrD[OF e1] obtain r where e2: "ebind (this_col (board g) j) (\<lambda>col.
          ebind (this_square (board g) i j) (\<lambda>square.
          ebind (py_int num) (\<lambda>numint.
            if numint \<in> set r \<or> numint \<in> set col \<or> numint \<in> set square
            then Inr g
            else ebind (addch g y x num) (\<lambda>g1.
                 ebind (set_cell (board g1) i j numint) (\<lambda>b.
                   move (g1\<lparr>board := b\<rparr>) y x))))) = Inr g'"
        by (elim exE conjE)
      from ebind_InrD[OF e2] obtain c where e3: "
          ebind (this_square (board g) i j) (\<lambda>square.
          ebind (py_int num) (\<lambda>numint.
            if numint \<in> set r \<or> numint \<in> set c \<or> numint \<in> set square
            then Inr g
            else ebind (addch g y x num) (\<lambda>g1.
                 ebind (set_cell (board g1) i j numint) (\<lambda>b.
                   move (g1\<lparr>board := b\<rparr>) y x)))) = Inr g'"
        by (elim exE conjE)
      from ebind_InrD[OF e3] obtain q where e4: "
          ebind (py_int num) (\<lambda>numint.
            if numint \<in> set r \<or> numint \<in> set c \<or> numint \<in> set q
            then Inr g
            else ebind (addch g y x num) (\<lambda>g1.
                 ebind (set_cell (board g1) i j numint) (\<lambda>b.
                   move (g1\<lparr>board := b\<rparr>) y x))) = Inr g'"
        by (elim exE conjE)
      from ebind_InrD[OF e4] obtain d where e5: "
            (if d \<in> set r \<or> d \<in> set c \<or> d \<in> set q
            then Inr g
            else ebind (addch g y x num) (\<lambda>g1.
                 ebind (set_cell (board g1) i j d) (\<lambda>b.
                   move (g1\<lparr>board := b\<rparr>) y x))) = Inr g'"
        by (elim exE conjE)
      have "g' = g \<or> g' = edited g y x num (put (board g) (nat i) (nat j) d)"
      proof (cases "d \<in> set r \<or> d \<in> set c \<or> d \<in> set q")
        case True
        with e5 show ?thesis by simp
      next
        case False
        with e5 have "ebind (addch g y x num) (\<lambda>g1.
                 ebind (set_cell (board g1) i j d) (\<lambda>b.
                   move (g1\<lparr>board := b\<rparr>) y x)) = Inr g'"
          by simp
        from draw_store_InrD[OF this ij(2,3)] show ?thesis by simp
      qed
      then show ?thesis using z ij by blast
    qed
  qed
qed

lemma try_del_InrD:
  assumes "try_del g y x = Inr g'"
  shows "g' = g \<or> (\<exists>i j. yx_to_ij g y x = Some (i, j) \<and> initial_board g ! nat i ! nat j = 0
            \<and> g' = edited g y x '' '' (put (board g) (nat i) (nat j) 0))"
proof (cases "is_on_grid g y x")
  case False
  then show ?thesis using assms by (simp add: try_del_def)
next
  case True
  then obtain i j where ij: "yx_to_ij g y x = Some (i, j)" "0 \<le> i" "0 \<le> j"
    using on_grid_index by blast
  show ?thesis
  proof (cases "is_on_initial g y x")
    case (Inl e)
    then show ?thesis using assms True by (simp add: try_del_def)
  next
    case (Inr given)
    show ?thesis
    proof (cases given)
      case True
      then show ?thesis using assms Inr \<open>is_on_grid g y x\<close> by (simp add: try_del_def)
    next
      case False
      with Inr have "is_on_initial g y x = Inr False" by simp
      then have z: "initial_board g ! nat i ! nat j = 0"
        using ij(1) by (rule is_on_initial_FalseD)
      have "try_del g y x =
          ebind (addch g y x '' '') (\<lambda>g1.
            ebind (set_cell (board g1) i j 0) (\<lambda>b. move (g1\<lparr>board := b\<rparr>) y x))"
        using True Inr False ij(1) by (simp add: try_del_def)
      with assms have "ebind (addch g y x '' '') (\<lambda>g1.
            ebind (set_cell (board g1) i j 0) (\<lambda>b. move (g1\<lparr>board := b\<rparr>) y x)) = Inr g'"
        by simp
      from draw_store_InrD[OF this ij(2,3)]
      have "g' = edited g y x '' '' (put (board g) (nat i) (nat j) 0)" .
      then show ?thesis using z ij by blast
    qed
  qed
qed

lemma try_move_InrD:
  assumes "try_move g y x dir = Inr g'"
  shows "initial_board g' = initial_board g \<and> board g' = board g"
proof -
  have "\<exists>p. g' = g\<lparr>cursor := p\<rparr> \<or> g' = g"
    using assms by (auto simp: try_move_def split: if_splits dest!: move_InrD)
  then show ?thesis by auto
qed

lemma put_other: "(i', j') \<noteq> (i, j) \<Longrightarrow> put b i j v ! i' ! j' = b ! i' ! j'"
  by (cases "i' = i"; cases "i < length b") (auto simp: put_def list_update_beyond)

lemma put_shape: "map length (put b i j v) = map length b"
  by (cases "i < length b") (simp_all add: put_def map_update list_update_same_conv list_update_beyond)

lemma edited_fields [simp]:
  "board (edited g y x s b) = b"
  "initial_board (edited g y x s b) = initial_board g"
  "cursor (edited g y x s b) = (y, x)"
  "height (edited g y x s b) = height g"
  "width (edited g y x s b) = width g"
  by (simp_all add: edited_def)

lemma edit_changes:
  assumes "try_place g y x num = Inr g' \<or> try_del g y x = Inr g'"
  shows "g' = g \<or> (\<exists>i j d. yx_to_ij g y x = Some (i, j) \<and> initial_board g ! nat i ! nat j = 0
            \<and> initial_board g' = initial_board g \<and> board g' = put (board g) (nat i) (nat j) d)"
  using assms try_place_InrD[of g y x num g'] try_del_InrD[of g y x g']
  by (elim disjE) (auto simp: )

lemma demo_place_4: "try_place demo 1 3 ''4'' = Inr demo_played"
proof -
  have "py_int ''4'' = Inr 4" by code_simp
  moreover have "\<not> conflict (board demo) (nat 0) (nat 2) 4" by code_simp
  moreover have "initial_board demo ! nat 0 ! nat 2 = 0" by code_simp
  moreover have "(1::int) \<noteq> height demo" by (simp add: demo_def new_game_def)
  ultimately show ?thesis
    by (simp add: try_place_wf[OF wf_demo demo_1_3] demo_played_def)
qed

lemma demo_move_up: "try_move demo 1 3 ''KEY_UP'' = Inr (demo\<lparr>cursor := (1, 3)\<rparr>)"
  by (simp add: try_move_def move_def in_window_def is_on_grid_def is_safe_pos_def
      demo_def new_game_def)

section \<open>The frame of an edit\<close>

text \<open>
  Claim C8. A call of \<open>try_place\<close> or \<open>try_del\<close> that returns leaves \<open>initial_board\<close>
  and the shape of the player board as they were, and changes at most one entry of the
  player board: every cell other than the target \<open>yx_to_ij(y, x)\<close> keeps its value, and
  a cell whose value did change is that target, which is then on the grid and not given.
  A call of \<open>try_move\<close> that returns touches neither board. (\<open>is_completed\<close> only reads
  the game: its model returns no state. A call that raises has not written a board: the
  one store of an edit comes after every step that can raise.)
\<close>

theorem edit_frame:
  assumes "try_place g y x num = Inr g' \<or> try_del g y x = Inr g'"
  shows "initial_board g' = initial_board g
    \<and> map length (board g') = map length (board g)
    \<and> (\<forall>i j. yx_to_ij g y x \<noteq> Some (int i, int j) \<longrightarrow> board g' ! i ! j = board g ! i ! j)
    \<and> (\<forall>i j. board g' ! i ! j \<noteq> board g ! i ! j \<longrightarrow>
          is_on_grid g y x \<and> yx_to_ij g y x = Some (int i, int j) \<and> initial_board g ! i ! j = 0)
    \<and> (\<forall>y' x' g''. try_move g y' x' dir = Inr g'' \<longrightarrow>
          initial_board g'' = initial_board g \<and> board g'' = board g)"
proof -
  have mv: "\<forall>y' x' g''. try_move g y' x' dir = Inr g'' \<longrightarrow>
          initial_board g'' = initial_board g \<and> board g'' = board g"
    using try_move_InrD by blast
  from edit_changes[OF assms] show ?thesis
  proof
    assume "g' = g"
    then show ?thesis using mv by simp
  next
    assume "\<exists>i j d. yx_to_ij g y x = Some (i, j) \<and> initial_board g ! nat i ! nat j = 0
            \<and> initial_board g' = initial_board g \<and> board g' = put (board g) (nat i) (nat j) d"
    then obtain i j d where t: "yx_to_ij g y x = Some (i, j)"
      and z: "initial_board g ! nat i ! nat j = 0"
      and ib: "initial_board g' = initial_board g"
      and b: "board g' = put (board g) (nat i) (nat j) d"
      by blast
    note r = yx_to_ij_SomeD[OF t]
    have other: "board g' ! i' ! j' = board g ! i' ! j'" if "(int i', int j') \<noteq> (i, j)" for i' j'
    proof -
      have "(i', j') \<noteq> (nat i, nat j)" using that r by auto
      then show ?thesis unfolding b by (rule put_other)
    qed
    have same: "i = int i' \<and> j = int j'" if "board g' ! i' ! j' \<noteq> board g ! i' ! j'" for i' j'
      using that other[of i' j'] by auto
    have "map length (board g') = map length (board g)" by (simp add: b put_shape)
    moreover have "\<forall>i' j'. yx_to_ij g y x \<noteq> Some (int i', int j') \<longrightarrow>
        board g' ! i' ! j' = board g ! i' ! j'"
      using other t by auto
    moreover have "\<forall>i' j'. board g' ! i' ! j' \<noteq> board g ! i' ! j' \<longrightarrow>
          is_on_grid g y x \<and> yx_to_ij g y x = Some (int i', int j')
          \<and> initial_board g ! i' ! j' = 0"
    proof (intro allI impI)
      fix i' j' assume "board g' ! i' ! j' \<noteq> board g ! i' ! j'"
      then have "i = int i' \<and> j = int j'" by (rule same)
      then show "is_on_grid g y x \<and> yx_to_ij g y x = Some (int i', int j')
          \<and> initial_board g ! i' ! j' = 0"
        using t z r by auto
    qed
    ultimately show ?thesis using ib mv by blast
  qed
qed

theorem edit_frame_witness:
  "initial_board demo_played = initial_board demo
    \<and> map length (board demo_played) = map length (board demo)
    \<and> board demo_played ! 0 ! 0 = board demo ! 0 ! 0
    \<and> is_on_grid demo 1 3 \<and> yx_to_ij demo 1 3 = Some (int 0, int 2)
    \<and> initial_board demo ! 0 ! 2 = 0
    \<and> initial_board (demo\<lparr>cursor := (1, 3)\<rparr>) = initial_board demo
    \<and> board (demo\<lparr>cursor := (1, 3)\<rparr>) = board demo"
proof -
  have a: "yx_to_ij demo 1 3 \<noteq> Some (int 0, int 0)" by (simp add: demo_1_3)
  have c: "board demo_played ! 0 ! 2 \<noteq> board demo ! 0 ! 2" by code_simp
  note f = edit_frame[OF disjI1[OF demo_place_4], where dir = "''KEY_UP''"]
  from f have "board demo_played ! 0 ! 0 = board demo ! 0 ! 0" using a by blast
  moreover from f have "is_on_grid demo 1 3 \<and> yx_to_ij demo 1 3 = Some (int 0, int 2)
      \<and> initial_board demo ! 0 ! 2 = 0" using c by blast
  moreover from f demo_move_up
  have "initial_board (demo\<lparr>cursor := (1, 3)\<rparr>) = initial_board demo
    \<and> board (demo\<lparr>cursor := (1, 3)\<rparr>) = board demo" by blast
  ultimately show ?thesis using f by blast
qed

lemma wf_demo_played: "wf_grid (initial_board demo_played)" "wf_grid (board demo_played)"
  by (simp_all add: demo_played_def wf_demo)
    (simp add: put_def demo_def new_game_def demo_puzzle_def wf_grid_def)

lemma demo_played_1_3: "yx_to_ij demo_played 1 3 = Some (0, 2)"
  by (simp add: yx_to_ij_def is_on_grid_def is_safe_pos_def demo_played_def demo_def new_game_def)

subsection \<open>Given cells along a play\<close>

lemma edit_keeps_given:
  assumes "try_place g y x num = Inr g' \<or> try_del g y x = Inr g'"
    and "initial_board g ! i ! j \<noteq> 0"
  shows "board g' ! i ! j = board g ! i ! j"
proof -
  from edit_changes[OF assms(1)] show ?thesis
  proof
    assume "g' = g"
    then show ?thesis by simp
  next
    assume "\<exists>i j d. yx_to_ij g y x = Some (i, j) \<and> initial_board g ! nat i ! nat j = 0
            \<and> initial_board g' = initial_board g \<and> board g' = put (board g) (nat i) (nat j) d"
    then obtain i0 j0 d where z: "initial_board g ! nat i0 ! nat j0 = 0"
      and b: "board g' = put (board g) (nat i0) (nat j0) d"
      by blast
    have "(i, j) \<noteq> (nat i0, nat j0)" using z assms(2) by auto
    then show ?thesis unfolding b by (rule put_other)
  qed
qed

lemma edit_keeps_initial:
  assumes "try_place g y x num = Inr g' \<or> try_del g y x = Inr g'"
  shows "initial_board g' = initial_board g"
  using edit_changes[OF assms] by auto

lemma reachable_invariant:
  assumes "reachable g0 g"
  shows "initial_board g = initial_board g0
     \<and> (\<forall>i j. initial_board g0 ! i ! j \<noteq> 0 \<longrightarrow> board g ! i ! j = board g0 ! i ! j)"
  using assms
proof (induction rule: reachable.induct)
  case start
  show ?case by simp
next
  case (by_move g y x dir g')
  then show ?case using try_move_InrD by simp
next
  case (by_place g y x num g')
  have e: "try_place g y x num = Inr g' \<or> try_del g y x = Inr g'" using by_place.hyps(2) by simp
  show ?case using by_place.IH edit_keeps_given[OF e] edit_keeps_initial[OF e] by simp
next
  case (by_del g y x g')
  have e: "try_place g y x [] = Inr g' \<or> try_del g y x = Inr g'" using by_del.hyps(2) by simp
  show ?case using by_del.IH edit_keeps_given[OF e] edit_keeps_initial[OF e] by simp
qed

lemma demo_played_place_2:
  "try_place demo_played 1 3 ''2'' = Inr (edited demo_played 1 3 ''2'' (put (board demo_played) 0 2 2))"
proof -
  have "py_int ''2'' = Inr 2" by code_simp
  moreover have "\<not> conflict (board demo_played) (nat 0) (nat 2) 2" by code_simp
  moreover have "initial_board demo_played ! nat 0 ! nat 2 = 0" by code_simp
  moreover have "(1::int) \<noteq> height demo_played"
    by (simp add: demo_played_def demo_def new_game_def)
  ultimately show ?thesis
    by (simp add: try_place_wf[OF wf_demo_played demo_played_1_3])
qed

lemma demo_played_del:
  "try_del demo_played 1 3 = Inr (edited demo_played 1 3 '' '' (put (board demo_played) 0 2 0))"
proof -
  have "initial_board demo_played ! nat 0 ! nat 2 = 0" by code_simp
  moreover have "(1::int) \<noteq> height demo_played"
    by (simp add: demo_played_def demo_def new_game_def)
  ultimately show ?thesis
    by (simp add: try_del_wf[OF wf_demo_played demo_played_1_3])
qed

section \<open>Given cells are never altered\<close>

text \<open>
  Claim C1. In every state that a game started on \<open>puzzle\<close> reaches by calls of
  \<open>try_move\<close>, \<open>try_place\<close> and \<open>try_del\<close>, whatever their arguments, the initial
  board is still \<open>puzzle\<close> and the player board agrees with it on every given cell: for
  \<open>i, j\<close> in 0..8 with \<open>initial_board[i][j] != 0\<close>, \<open>board[i][j] = initial_board[i][j]\<close>.
  No further call of \<open>try_place\<close> or \<open>try_del\<close> changes the value of such a cell.
\<close>

theorem given_cells_never_change:
  assumes "reachable (new_game puzzle lines columns) g"
    and "i < 9" and "j < 9" and "puzzle ! i ! j \<noteq> 0"
  shows "initial_board g = puzzle \<and> board g ! i ! j = puzzle ! i ! j
     \<and> (\<forall>y x num g'. try_place g y x num = Inr g' \<longrightarrow> board g' ! i ! j = board g ! i ! j)
     \<and> (\<forall>y x g'. try_del g y x = Inr g' \<longrightarrow> board g' ! i ! j = board g ! i ! j)"
proof -
  have s: "initial_board (new_game puzzle lines columns) = puzzle"
    "board (new_game puzzle lines columns) = puzzle"
    by (simp_all add: new_game_def)
  from reachable_invariant[OF assms(1)] have ib: "initial_board g = puzzle"
    and bd: "board g ! i ! j = puzzle ! i ! j"
    using assms(4) by (simp_all add: s)
  have given: "initial_board g ! i ! j \<noteq> 0" using ib assms(4) by simp
  have "board g' ! i ! j = board g ! i ! j" if "try_place g y x num = Inr g'" for y x num g'
    using edit_keeps_given[of g y x num g' i j] that given by simp
  moreover have "board g' ! i ! j = board g ! i ! j" if "try_del g y x = Inr g'" for y x g'
    using edit_keeps_given[of g y x "[]" g' i j] that given by simp
  ultimately show ?thesis using ib bd by blast
qed

theorem given_cells_never_change_witness:
  "initial_board demo_played = demo_puzzle
   \<and> board demo_played ! 0 ! 0 = demo_puzzle ! 0 ! 0
   \<and> board (edited demo_played 1 3 ''2'' (put (board demo_played) 0 2 2)) ! 0 ! 0
       = board demo_played ! 0 ! 0
   \<and> board (edited demo_played 1 3 '' '' (put (board demo_played) 0 2 0)) ! 0 ! 0
       = board demo_played ! 0 ! 0"
proof -
  have r: "reachable (new_game demo_puzzle 24 80) demo_played"
    using reachable.by_place[OF reachable.start demo_place_4] by (simp add: demo_def)
  have n: "(0::nat) < 9" by simp
  have g: "demo_puzzle ! 0 ! 0 \<noteq> 0" by (simp add: demo_puzzle_def)
  note t = given_cells_never_change[OF r n n g]
  from t have "initial_board demo_played = demo_puzzle
   \<and> board demo_played ! 0 ! 0 = demo_puzzle ! 0 ! 0" by blast
  moreover from t demo_played_place_2
  have "board (edited demo_played 1 3 ''2'' (put (board demo_played) 0 2 2)) ! 0 ! 0
       = board demo_played ! 0 ! 0" by blast
  moreover from t demo_played_del
  have "board (edited demo_played 1 3 '' '' (put (board demo_played) 0 2 0)) ! 0 ! 0
       = board demo_played ! 0 ! 0" by blast
  ultimately show ?thesis by blast
qed

section \<open>The row below the window\<close>









section \<open>A digit key that is no number\<close>

text \<open>
  Claim C7 says that for every position and every digit string the two edits either
  change the board validly or do nothing, and never raise. Lemma
  \<open>rejections_are_silent\<close> proves its part about the targets that are turned down, where
  \<open>yx_to_ij\<close>'s sentinel is never used as an index. The claim fails on a key that
  \<open>play\<close> takes for a digit and \<open>int\<close> does not: the superscript two, code point 178,
  is one character, satisfies \<open>isdigit\<close> and is not \<open>"0"\<close>, so with the cursor on the
  editable cell at \<open>(1, 3)\<close> the loop calls \<open>try_place\<close> with it, and \<open>int\<close> raises
  \<open>ValueError\<close>.
\<close>

theorem try_place_raises_on_superscript_two:
  "length [CHR 0xB2] = 1 \<and> list_all py_isdigit [CHR 0xB2] \<and> [CHR 0xB2] \<noteq> ''0''
   \<and> yx_to_ij demo 1 3 = Some (0, 2)
   \<and> initial_board demo ! 0 ! 2 = 0
   \<and> try_place demo 1 3 [CHR 0xB2] = Inl ValueError
   \<and> play_step (demo\<lparr>cursor := (1, 3)\<rparr>) [CHR 0xB2] = Inl ValueError"
proof -
  have k: "list_all py_isdigit [CHR 0xB2]" by code_simp
  have z: "initial_board demo ! 0 ! 2 = 0" by code_simp
  have p: "py_int [CHR 0xB2] = Inl ValueError" by code_simp
  have t: "try_place demo 1 3 [CHR 0xB2] = Inl ValueError"
    using z p by (simp add: try_place_wf[OF wf_demo demo_1_3])
  have w: "wf_grid (initial_board (demo\<lparr>cursor := (1, 3)\<rparr>))"
    "wf_grid (board (demo\<lparr>cursor := (1, 3)\<rparr>))"
    using wf_demo by simp_all
  have y: "yx_to_ij (demo\<lparr>cursor := (1, 3)\<rparr>) 1 3 = Some (0, 2)"
    by (simp add: yx_to_ij_def is_on_grid_def is_safe_pos_def demo_def new_game_def)
  have t': "try_place (demo\<lparr>cursor := (1, 3)\<rparr>) 1 3 [CHR 0xB2] = Inl ValueError"
    using z p by (simp add: try_place_wf[OF w y])
  have "play_step (demo\<lparr>cursor := (1, 3)\<rparr>) [CHR 0xB2] = Inl ValueError"
    using k t' by (simp add: play_step_def)
  then show ?thesis using k z t demo_1_3 by simp
qed

section \<open>Screen positions and board indices\<close>

lemma small_int_cases:
  assumes "0 \<le> (y::int)" "y \<le> 12"
  shows "y \<in> {0, 1, 2, 3, 4, 5, 6, 7, 8, 9, 10, 11, 12}"
proof -
  have "y \<in> set [0..12]" using assms by simp
  then show ?thesis by (simp add: upto.simps)
qed

lemma playable_index:
  assumes "0 \<le> y" "y \<le> 12" "y mod 4 \<noteq> 0"
  shows "to_screen (y - 1 - y div 4) = y \<and> 0 \<le> y - 1 - y div 4 \<and> y - 1 - y div 4 \<le> 8"
  using small_int_cases[OF assms(1,2)] assms(3) unfolding to_screen_def by auto

lemma index_playable:
  assumes "0 \<le> i" "i \<le> 8"
  shows "0 \<le> to_screen i \<and> to_screen i \<le> 11 \<and> to_screen i mod 4 \<noteq> 0
    \<and> to_screen i - 1 - to_screen i div 4 = i"
proof -
  have "i \<le> 12" using assms(2) by simp
  from small_int_cases[OF assms(1) this] assms(2) show ?thesis
    unfolding to_screen_def by auto
qed

lemma on_grid_large:
  assumes "11 \<le> height g" "13 \<le> width g"
  shows "is_on_grid g y x = playable y x"
proof (cases "playable y x")
  case True
  then have "y \<noteq> 12 \<and> x \<noteq> 12" unfolding playable_def by auto
  with True have "y \<le> 11 \<and> x \<le> 11" unfolding playable_def by linarith
  then show ?thesis using True assms
    by (auto simp: is_on_grid_def is_safe_pos_def playable_def)
next
  case False
  then show ?thesis by (auto simp: is_on_grid_def playable_def)
qed

text \<open>
  Claim C5. When the terminal has at least 11 lines and 13 columns, the positions on the
  grid are exactly those with \<open>0 <= y <= 12\<close>, \<open>0 <= x <= 12\<close>, \<open>y % 4 != 0\<close> and
  \<open>x % 4 != 0\<close>; on them \<open>yx_to_ij\<close> is \<open>((y-1)-(y//4), (x-1)-(x//4))\<close>, it is a
  bijection onto the indices 0..8 x 0..8, and \<open>i + i//3 + 1\<close> on each coordinate is its
  inverse, in both orders of composition.
\<close>

theorem yx_to_ij_bijection:
  assumes "11 \<le> height g" and "13 \<le> width g"
  shows "(\<forall>y x. is_on_grid g y x = playable y x)
     \<and> (\<forall>y x. playable y x \<longrightarrow>
            yx_to_ij g y x = Some (y - 1 - y div 4, x - 1 - x div 4)
            \<and> to_screen (y - 1 - y div 4) = y \<and> to_screen (x - 1 - x div 4) = x)
     \<and> (\<forall>i j. 0 \<le> i \<and> i \<le> 8 \<and> 0 \<le> j \<and> j \<le> 8 \<longrightarrow>
            playable (to_screen i) (to_screen j)
            \<and> yx_to_ij g (to_screen i) (to_screen j) = Some (i, j))
     \<and> bij_betw (\<lambda>(y, x). the (yx_to_ij g y x)) {(y, x). playable y x} ({0..8} \<times> {0..8})"
proof -
  note og = on_grid_large[OF assms]
  have fwd: "yx_to_ij g y x = Some (y - 1 - y div 4, x - 1 - x div 4)
            \<and> to_screen (y - 1 - y div 4) = y \<and> to_screen (x - 1 - x div 4) = x"
    if "playable y x" for y x
    using that playable_index[of y] playable_index[of x]
    by (simp add: yx_to_ij_def og) (simp add: playable_def)
  have bwd: "playable (to_screen i) (to_screen j)
            \<and> yx_to_ij g (to_screen i) (to_screen j) = Some (i, j)"
    if "0 \<le> i \<and> i \<le> 8 \<and> 0 \<le> j \<and> j \<le> 8" for i j
  proof -
    have p: "playable (to_screen i) (to_screen j)"
      using that index_playable[of i] index_playable[of j] by (simp add: playable_def)
    then show ?thesis
      using that index_playable[of i] index_playable[of j]
      by (simp add: yx_to_ij_def og)
  qed
  have inside: "the (yx_to_ij g y x) \<in> {0..8} \<times> {0..8}" if p: "playable y x" for y x
  proof -
    have "0 \<le> y - 1 - y div 4 \<and> y - 1 - y div 4 \<le> 8
        \<and> 0 \<le> x - 1 - x div 4 \<and> x - 1 - x div 4 \<le> 8"
      using p playable_index[of y] playable_index[of x] by (simp add: playable_def)
    then show ?thesis using fwd[OF p] by simp
  qed
  have "bij_betw (\<lambda>(y, x). the (yx_to_ij g y x)) {(y, x). playable y x} ({0..8} \<times> {0..8})"
  proof (rule bij_betw_byWitness[where f' = "\<lambda>(i, j). (to_screen i, to_screen j)"])
    show "\<forall>a\<in>{(y, x). playable y x}.
       (case (case a of (y, x) \<Rightarrow> the (yx_to_ij g y x)) of (i, j) \<Rightarrow> (to_screen i, to_screen j)) = a"
      using fwd by auto
    show "\<forall>a'\<in>{0..8} \<times> {0..8}.
       (case (case a' of (i, j) \<Rightarrow> (to_screen i, to_screen j)) of (y, x) \<Rightarrow> the (yx_to_ij g y x)) = a'"
      using bwd by auto
    show "(\<lambda>(y, x). the (yx_to_ij g y x)) ` {(y, x). playable y x} \<subseteq> {0..8} \<times> {0..8}"
    proof (rule image_subsetI)
      fix a assume "a \<in> {(y, x). playable y x}"
      then obtain y x where a: "a = (y, x)" and p: "playable y x" by auto
      show "(case a of (y, x) \<Rightarrow> the (yx_to_ij g y x)) \<in> {0..8} \<times> {0..8}"
        unfolding a using inside[OF p] by (simp only: prod.case)
    qed
    show "(\<lambda>(i, j). (to_screen i, to_screen j)) ` ({0..8} \<times> {0..8}) \<subseteq> {(y, x). playable y x}"
      using bwd by auto
  qed
  then show ?thesis using og fwd bwd by blast
qed

theorem yx_to_ij_bijection_witness:
  "is_on_grid demo 5 7 = playable 5 7
   \<and> yx_to_ij demo 5 7 = Some (5 - 1 - 5 div 4, 7 - 1 - 7 div 4)
   \<and> to_screen (5 - 1 - 5 div 4) = 5 \<and> to_screen (7 - 1 - 7 div 4) = 7
   \<and> playable (to_screen 3) (to_screen 5)
   \<and> yx_to_ij demo (to_screen 3) (to_screen 5) = Some (3, 5)
   \<and> bij_betw (\<lambda>(y, x). the (yx_to_ij demo y x)) {(y, x). playable y x} ({0..8} \<times> {0..8})"
proof -
  have h: "11 \<le> height demo" and w: "13 \<le> width demo"
    by (simp_all add: demo_def new_game_def)
  have p: "playable 5 7" by (simp add: playable_def)
  have r: "(0::int) \<le> 3 \<and> (3::int) \<le> 8 \<and> (0::int) \<le> 5 \<and> (5::int) \<le> 8" by simp
  note t = yx_to_ij_bijection[OF h w]
  from t have "is_on_grid demo 5 7 = playable 5 7" by blast
  moreover from t p have "yx_to_ij demo 5 7 = Some (5 - 1 - 5 div 4, 7 - 1 - 7 div 4)
   \<and> to_screen (5 - 1 - 5 div 4) = 5 \<and> to_screen (7 - 1 - 7 div 4) = 7" by blast
  moreover from t r have "playable (to_screen 3) (to_screen 5)
   \<and> yx_to_ij demo (to_screen 3) (to_screen 5) = Some (3, 5)" by blast
  moreover from t have "bij_betw (\<lambda>(y, x). the (yx_to_ij demo y x)) {(y, x). playable y x} ({0..8} \<times> {0..8})"
    by blast
  ultimately show ?thesis by blast
qed

section \<open>The completion check\<close>

lemma upt_0_9: "[0..<9] = [0, 1, 2, 3, 4, 5, 6, 7, 8]"
  by (simp add: upt_rec)

lemma upt_0_3: "[0..<3] = [0, 1, 2]"
  by (simp add: upt_rec)

lemma range_nat: "map (\<lambda>k. f (nat k)) (py_range 0 9) = map f [0..<9]"
  by (simp add: range_0_9 upt_0_9)

lemma range_3: "py_range k (k + 3) = [k, k + 1, k + 2]"
  by (simp add: py_range_def upto.simps)

lemma nine_distinct:
  assumes "S \<subseteq> {1..9::int}"
  shows "(card S \<noteq> 9 \<or> \<Sum> S \<noteq> 45) = (S \<noteq> {1..9})"
proof -
  have c: "card {1..9::int} = 9" by simp
  have l: "[1..9::int] = [1, 2, 3, 4, 5, 6, 7, 8, 9]" by (simp add: upto.simps)
  have "set [1..9::int] = set [1, 2, 3, 4, 5, 6, 7, 8, 9]" by (simp only: l)
  then have e: "{1..9::int} = {1, 2, 3, 4, 5, 6, 7, 8, 9}" by (simp only: set_upto list.set)
  have s: "\<Sum> {1..9::int} = 45" unfolding e by simp
  show ?thesis
  proof
    assume "card S \<noteq> 9 \<or> \<Sum> S \<noteq> 45"
    then show "S \<noteq> {1..9}" using c s by auto
  next
    assume "S \<noteq> {1..9}"
    then have "card S \<noteq> 9" using assms c card_subset_eq[of "{1..9::int}" S] by auto
    then show "card S \<noteq> 9 \<or> \<Sum> S \<noteq> 45" by simp
  qed
qed

lemma perm_iff_set:
  assumes "length u = 9"
  shows "(set u = {1..9}) = (mset u = mset [1..9])"
proof
  assume s: "set u = {1..9}"
  then have "card (set u) = length u" using assms by simp
  then have "distinct u" by (rule card_distinct)
  moreover have "set u = set [1..9]" using s by (simp only: set_upto)
  ultimately show "mset u = mset [1..9]"
    by (simp add: set_eq_iff_mset_eq_distinct[symmetric])
next
  assume "mset u = mset [1..9]"
  then have "set u = set [1..9]" by (rule mset_eq_setD)
  then show "set u = {1..9}" by (simp only: set_upto)
qed

lemma cell_range:
  assumes "wf_grid b" "cells_in b lo hi" "n < 9" "m < 9"
  shows "lo \<le> b ! n ! m \<and> b ! n ! m \<le> hi"
proof -
  have "length b = 9" using assms(1) by (simp add: wf_grid_def)
  moreover have "length (b ! n) = 9" using assms(1,3) by (rule wf_grid_row)
  ultimately show ?thesis using assms(2,3,4) by (simp add: cells_in_def list_all_length)
qed

lemma in_digits: "v \<in> set digits \<longleftrightarrow> 1 \<le> v \<and> v \<le> 9"
  by (auto simp: digits_def set_py_range)

lemma all_filled_wf:
  assumes "wf_grid b" "cells_in b 0 9"
    and "\<forall>p\<in>set ps. 0 \<le> fst p \<and> fst p < 9 \<and> 0 \<le> snd p \<and> snd p < 9"
  shows "all_filled b ps = Inr (\<forall>p\<in>set ps. b ! nat (fst p) ! nat (snd p) \<noteq> 0)"
  using assms(3)
proof (induction ps)
  case Nil
  show ?case by simp
next
  case (Cons p ps)
  obtain i j where p: "p = (i, j)" by (cases p)
  have r: "0 \<le> i" "i < 9" "0 \<le> j" "j < 9" using Cons.prems p by auto
  have c: "cell b i j = Inr (b ! nat i ! nat j)" using assms(1) r by (rule cell_wf)
  have "nat i < 9" "nat j < 9" using r by linarith+
  then have v: "0 \<le> b ! nat i ! nat j \<and> b ! nat i ! nat j \<le> 9"
    using cell_range[OF assms(1,2)] by blast
  have ih: "all_filled b ps = Inr (\<forall>p\<in>set ps. b ! nat (fst p) ! nat (snd p) \<noteq> 0)"
    using Cons by simp
  show ?case
  proof (cases "b ! nat i ! nat j = 0")
    case True
    then show ?thesis using c p by auto
  next
    case False
    then have "b ! nat i ! nat j \<in> set digits" using v by (simp add: in_digits)
    then show ?thesis using c p False ih by simp
  qed
qed

lemma full_product:
  "(\<forall>p\<in>set (List.product (py_range 0 9) (py_range 0 9)). b ! nat (fst p) ! nat (snd p) \<noteq> 0)
     = full b"
proof
  assume a: "\<forall>p\<in>set (List.product (py_range 0 9) (py_range 0 9)). b ! nat (fst p) ! nat (snd p) \<noteq> 0"
  show "full b" unfolding full_def
  proof (intro ballI)
    fix n m :: nat assume "n \<in> {0..<9}" "m \<in> {0..<9}"
    then have "(int n, int m) \<in> set (List.product (py_range 0 9) (py_range 0 9))"
      by (simp add: set_py_range)
    from a[rule_format, OF this] show "b ! n ! m \<noteq> 0" by simp
  qed
next
  assume f: "full b"
  show "\<forall>p\<in>set (List.product (py_range 0 9) (py_range 0 9)). b ! nat (fst p) ! nat (snd p) \<noteq> 0"
  proof
    fix p assume "p \<in> set (List.product (py_range 0 9) (py_range 0 9))"
    then have "nat (fst p) \<in> {0..<9} \<and> nat (snd p) \<in> {0..<9}"
      by (auto simp: set_py_range)
    then show "b ! nat (fst p) ! nat (snd p) \<noteq> 0" using f unfolding full_def by blast
  qed
qed

lemma is_completed_fast:
  assumes "wf_grid (board g)" "cells_in (board g) 0 9"
  shows "all_filled (board g) (List.product (py_range 0 9) (py_range 0 9)) = Inr (full (board g))"
proof -
  have "\<forall>p\<in>set (List.product (py_range 0 9) (py_range 0 9)).
      0 \<le> fst p \<and> fst p < 9 \<and> 0 \<le> snd p \<and> snd p < 9"
    by (auto simp: set_py_range)
  from all_filled_wf[OF assms this] show ?thesis by (simp only: full_product)
qed

lemma unit_row_values:
  assumes "wf_grid b" "cells_in b 1 9" "n < 9"
  shows "set (unit_row b n) \<subseteq> {1..9}"
  using cell_range[OF assms(1,2) assms(3)] by (auto simp: unit_row_def)

lemma unit_col_values:
  assumes "wf_grid b" "cells_in b 1 9" "m < 9"
  shows "set (unit_col b m) \<subseteq> {1..9}"
proof -
  have "1 \<le> b ! n ! m \<and> b ! n ! m \<le> 9" if "n < 9" for n
    using cell_range[OF assms(1,2) that assms(3)] .
  then show ?thesis by (auto simp: unit_col_def)
qed

lemma unit_box_values:
  assumes "wf_grid b" "cells_in b 1 9" "k < 3" "l < 3"
  shows "set (unit_box b k l) \<subseteq> {1..9}"
proof -
  have "1 \<le> b ! (3 * k + a) ! (3 * l + c) \<and> b ! (3 * k + a) ! (3 * l + c) \<le> 9"
    if "a < 3" "c < 3" for a c
  proof -
    have "3 * k + a < 9" "3 * l + c < 9" using assms(3,4) that by linarith+
    then show ?thesis using cell_range[OF assms(1,2)] by blast
  qed
  then show ?thesis by (auto simp: unit_box_def)
qed

lemma line_pairs:
  assumes "wf_grid b" "0 \<le> i" "i < 9"
  shows "traverse (\<lambda>j. ebind (cell b i j) (\<lambda>r. ebind (cell b j i) (\<lambda>c. Inr (r, c))))
           (py_range 0 9)
         = Inr (map (\<lambda>j. (b ! nat i ! nat j, b ! nat j ! nat i)) (py_range 0 9))"
proof (rule traverse_all_Inr)
  fix j assume "j \<in> set (py_range 0 9)"
  then have j: "0 \<le> j" "j < 9" by (simp_all add: set_py_range)
  show "ebind (cell b i j) (\<lambda>r. ebind (cell b j i) (\<lambda>c. Inr (r, c)))
        = Inr (b ! nat i ! nat j, b ! nat j ! nat i)"
    using assms j by (simp add: cell_wf)
qed

lemma line_pairs_fst:
  "map fst (map (\<lambda>j. (b ! nat i ! nat j, b ! nat j ! nat i)) (py_range 0 9)) = unit_row b (nat i)"
proof -
  have "map fst (map (\<lambda>j. (b ! nat i ! nat j, b ! nat j ! nat i)) (py_range 0 9))
      = map (\<lambda>j. b ! nat i ! nat j) (py_range 0 9)" by (simp add: comp_def)
  also have "\<dots> = map (\<lambda>m. b ! nat i ! m) [0..<9]" by (rule range_nat)
  finally show ?thesis by (simp add: unit_row_def)
qed

lemma line_pairs_snd:
  "map snd (map (\<lambda>j. (b ! nat i ! nat j, b ! nat j ! nat i)) (py_range 0 9)) = unit_col b (nat i)"
proof -
  have "map snd (map (\<lambda>j. (b ! nat i ! nat j, b ! nat j ! nat i)) (py_range 0 9))
      = map (\<lambda>j. b ! nat j ! nat i) (py_range 0 9)" by (simp add: comp_def)
  also have "\<dots> = map (\<lambda>m. b ! m ! nat i) [0..<9]" by (rule range_nat)
  finally show ?thesis by (simp add: unit_col_def)
qed

lemma lines_ok_wf:
  assumes "wf_grid b" "cells_in b 1 9" and "\<forall>i\<in>set is. 0 \<le> i \<and> i < 9"
  shows "lines_ok b is =
     Inr (\<forall>i\<in>set is. set (unit_row b (nat i)) = {1..9} \<and> set (unit_col b (nat i)) = {1..9})"
  using assms(3)
proof (induction "is")
  case Nil
  show ?case by simp
next
  case (Cons i "is")
  have i: "0 \<le> i" "i < 9" using Cons.prems by simp_all
  then have n: "nat i < 9" by linarith
  have ih: "lines_ok b is =
     Inr (\<forall>i\<in>set is. set (unit_row b (nat i)) = {1..9} \<and> set (unit_col b (nat i)) = {1..9})"
    using Cons by simp
  note r = nine_distinct[OF unit_row_values[OF assms(1,2) n]]
  note c = nine_distinct[OF unit_col_values[OF assms(1,2) n]]
  have bad: "(card (set (unit_row b (nat i))) \<noteq> 9 \<or> card (set (unit_col b (nat i))) \<noteq> 9
        \<or> \<Sum> (set (unit_row b (nat i))) \<noteq> 45 \<or> \<Sum> (set (unit_col b (nat i))) \<noteq> 45)
      = (\<not> (set (unit_row b (nat i)) = {1..9} \<and> set (unit_col b (nat i)) = {1..9}))"
    using r c by blast
  have "lines_ok b (i # is) =
      (if card (set (unit_row b (nat i))) \<noteq> 9 \<or> card (set (unit_col b (nat i))) \<noteq> 9
        \<or> \<Sum> (set (unit_row b (nat i))) \<noteq> 45 \<or> \<Sum> (set (unit_col b (nat i))) \<noteq> 45
       then Inr False else lines_ok b is)"
    by (simp only: lines_ok.simps line_pairs[OF assms(1) i] ebind_simps Let_def
        line_pairs_fst line_pairs_snd)
  also have "\<dots> = (if \<not> (set (unit_row b (nat i)) = {1..9} \<and> set (unit_col b (nat i)) = {1..9})
       then Inr False else lines_ok b is)"
    by (simp only: bad)
  finally show ?case using ih by auto
qed

lemma box_cells:
  assumes "wf_grid b" "k \<in> {0, 3, 6}" "l \<in> {0, 3, 6}"
  shows "traverse (\<lambda>(i, j). cell b i j) (List.product (py_range k (k + 3)) (py_range l (l + 3)))
     = Inr (unit_box b (nat k div 3) (nat l div 3))"
proof -
  have "traverse (\<lambda>(i, j). cell b i j) (List.product (py_range k (k + 3)) (py_range l (l + 3)))
     = Inr (map (\<lambda>(i, j). b ! nat i ! nat j)
              (List.product (py_range k (k + 3)) (py_range l (l + 3))))"
  proof (rule traverse_all_Inr)
    fix p assume "p \<in> set (List.product (py_range k (k + 3)) (py_range l (l + 3)))"
    then obtain i j where p: "p = (i, j)" and "k \<le> i" "i < k + 3" "l \<le> j" "j < l + 3"
      by (auto simp: set_py_range)
    then have "0 \<le> i \<and> i < 9 \<and> 0 \<le> j \<and> j < 9" using assms(2,3) by auto
    then show "(case p of (i, j) \<Rightarrow> cell b i j) = Inr (case p of (i, j) \<Rightarrow> b ! nat i ! nat j)"
      using assms(1) p by (simp add: cell_wf)
  qed
  also have "map (\<lambda>(i, j). b ! nat i ! nat j)
              (List.product (py_range k (k + 3)) (py_range l (l + 3)))
      = unit_box b (nat k div 3) (nat l div 3)"
    using assms(2,3) by (auto simp: range_3 unit_box_def upt_0_3 nat_add_distrib numeral_2_eq_2)
  finally show ?thesis .
qed

lemma squares_ok_wf:
  assumes "wf_grid b" "cells_in b 1 9"
    and "\<forall>p\<in>set kls. fst p \<in> {0, 3, 6} \<and> snd p \<in> {0, 3, 6}"
  shows "squares_ok b kls =
     Inr (\<forall>p\<in>set kls. set (unit_box b (nat (fst p) div 3) (nat (snd p) div 3)) = {1..9})"
  using assms(3)
proof (induction kls)
  case Nil
  show ?case by simp
next
  case (Cons p kls)
  obtain k l where p: "p = (k, l)" by (cases p)
  have kl: "k \<in> {0, 3, 6}" "l \<in> {0, 3, 6}" using Cons.prems p by auto
  then have n: "nat k div 3 < 3" "nat l div 3 < 3" by auto
  have ih: "squares_ok b kls =
     Inr (\<forall>p\<in>set kls. set (unit_box b (nat (fst p) div 3) (nat (snd p) div 3)) = {1..9})"
    using Cons by simp
  note q = nine_distinct[OF unit_box_values[OF assms(1,2) n]]
  have "squares_ok b (p # kls) =
      (if card (set (unit_box b (nat k div 3) (nat l div 3))) \<noteq> 9
          \<or> \<Sum> (set (unit_box b (nat k div 3) (nat l div 3))) \<noteq> 45
       then Inr False else squares_ok b kls)"
    unfolding p by (simp only: squares_ok.simps box_cells[OF assms(1) kl] ebind_simps Let_def)
  also have "\<dots> = (if set (unit_box b (nat k div 3) (nat l div 3)) \<noteq> {1..9}
       then Inr False else squares_ok b kls)"
    by (simp only: q)
  finally show ?case using ih p by auto
qed

lemma full_cells:
  assumes "wf_grid b" "cells_in b 0 9" "full b"
  shows "cells_in b 1 9"
proof -
  have len: "length b = 9" using assms(1) by (simp add: wf_grid_def)
  have "1 \<le> b ! n ! m \<and> b ! n ! m \<le> 9" if "n < 9" "m < 9" for n m
  proof -
    have "b ! n ! m \<noteq> 0" using assms(3) that by (simp add: full_def)
    then show ?thesis using cell_range[OF assms(1,2) that] by linarith
  qed
  then show ?thesis
    using len wf_grid_row[OF assms(1)] by (simp add: cells_in_def list_all_length)
qed

lemma units_all:
  "(\<forall>u\<in>set (units b). P u) =
     ((\<forall>i\<in>set (py_range 0 9). P (unit_row b (nat i)) \<and> P (unit_col b (nat i)))
      \<and> (\<forall>p\<in>set (List.product [0, 3, 6] [0, 3, 6]).
            P (unit_box b (nat (fst p) div 3) (nat (snd p) div 3))))"
  by (simp add: units_def upt_0_9 upt_0_3 range_0_9) blast

lemma units_length: "u \<in> set (units b) \<Longrightarrow> length u = 9"
  by (auto simp: units_def unit_row_def unit_col_def unit_box_def)

lemma is_completed_shallow:
  assumes "wf_grid (board g)" "cells_in (board g) 0 9"
  shows "is_completed g False = Inr (full (board g))"
  by (simp add: is_completed_def is_completed_fast[OF assms])

lemma is_completed_deep:
  assumes "wf_grid (board g)" "cells_in (board g) 0 9"
  shows "is_completed g True =
     Inr (full (board g) \<and> (\<forall>u\<in>set (units (board g)). set u = {1..9}))"
proof (cases "full (board g)")
  case False
  then show ?thesis by (simp add: is_completed_def is_completed_fast[OF assms])
next
  case True
  note c = full_cells[OF assms True]
  have r: "\<forall>i\<in>set (py_range 0 9). 0 \<le> i \<and> i < 9" by (simp add: set_py_range)
  have s: "\<forall>p\<in>set (List.product [0, 3, 6] [0, 3, 6]). fst p \<in> {0, 3, 6} \<and> snd p \<in> {0, 3, 6}"
    by auto
  note l = lines_ok_wf[OF assms(1) c r]
  note q = squares_ok_wf[OF assms(1) c s]
  have "is_completed g True =
      Inr ((\<forall>i\<in>set (py_range 0 9). set (unit_row (board g) (nat i)) = {1..9}
              \<and> set (unit_col (board g) (nat i)) = {1..9})
           \<and> (\<forall>p\<in>set (List.product [0, 3, 6] [0, 3, 6]).
              set (unit_box (board g) (nat (fst p) div 3) (nat (snd p) div 3)) = {1..9}))"
    unfolding is_completed_def is_completed_fast[OF assms] l q using True
    by (simp del: set_upto)
  then show ?thesis
    unfolding units_all[where P = "\<lambda>u. set u = {1..9}" and b = "board g"]
    using True by (simp only: simp_thms)
qed

lemma wf_solved: "wf_grid (board solved_game)" "cells_in (board solved_game) 0 9"
  by (simp_all add: solved_game_def demo_solution_def wf_grid_def cells_in_def)

lemma cells_demo: "cells_in (board demo) 0 9"
  by (simp add: demo_def new_game_def demo_puzzle_def cells_in_def)

lemma solved_full: "full (board solved_game)"
  by (simp add: solved_game_def demo_solution_def full_def atLeastLessThan_upt upt_0_9 del: set_upt)

lemma demo_not_full: "\<not> full (board demo)"
proof
  assume "full (board demo)"
  then have "board demo ! 0 ! 2 \<noteq> 0" by (simp add: full_def)
  then show False by (simp add: demo_def new_game_def demo_puzzle_def)
qed

lemma solved_units: "\<forall>u\<in>set (units (board solved_game)). mset u = mset [1..9]"
  by (simp add: solved_game_def demo_solution_def units_def unit_row_def unit_col_def
      unit_box_def upt_0_9 upt_0_3 upto.simps)

text \<open>
  Claim C3. On a 9x9 player board with every cell in 0..9, \<open>is_completed\<close> with
  \<open>deep_check=True\<close> returns \<open>True\<close> exactly when no cell is 0 and each row, each
  column and each aligned 3x3 box is exactly the set 1..9, and \<open>False\<close> otherwise. A
  unit has nine cells, so being that set is the same as being a permutation of 1..9.
\<close>

theorem is_completed_deep_check:
  assumes "wf_grid (board g)" and "cells_in (board g) 0 9"
  shows "is_completed g True =
           Inr (full (board g) \<and> (\<forall>u\<in>set (units (board g)). set u = {1..9}))
       \<and> (\<forall>u\<in>set (units (board g)).
             length u = 9 \<and> (set u = {1..9}) = (mset u = mset [1..9]))"
  using is_completed_deep[OF assms] units_length perm_iff_set by blast

theorem is_completed_deep_check_witness:
  "is_completed solved_game True = Inr True \<and> is_completed demo True = Inr False"
proof -
  note s = is_completed_deep_check[OF wf_solved]
  note d = is_completed_deep_check[OF wf_demo(2) cells_demo]
  from s have "\<forall>u\<in>set (units (board solved_game)). set u = {1..9}"
    using solved_units by blast
  with s solved_full have "is_completed solved_game True = Inr True" by simp
  moreover from d demo_not_full have "is_completed demo True = Inr False" by simp
  ultimately show ?thesis by blast
qed

text \<open>
  Claim C10. On a 9x9 player board with every cell in 0..9, \<open>is_completed\<close> returns a
  boolean for both values of \<open>deep_check\<close>, and the assertion inside it never fails: a
  cell that reaches it is not 0, hence in 1..9. Without the deep check the answer is
  whether the board is full.
\<close>

theorem is_completed_total:
  assumes "wf_grid (board g)" and "cells_in (board g) 0 9"
  shows "is_completed g False = Inr (full (board g))
       \<and> (\<exists>r. is_completed g deep_check = Inr r)
       \<and> is_completed g deep_check \<noteq> Inl AssertionError"
proof -
  have "\<exists>r. is_completed g deep_check = Inr r"
    using is_completed_deep[OF assms] is_completed_shallow[OF assms] by (cases deep_check) auto
  then show ?thesis using is_completed_shallow[OF assms] by auto
qed

theorem is_completed_total_witness:
  "is_completed solved_game False = Inr True
   \<and> (\<exists>r. is_completed solved_game True = Inr r)
   \<and> is_completed solved_game True \<noteq> Inl AssertionError
   \<and> is_completed demo False = Inr False"
proof -
  note s = is_completed_total[OF wf_solved, of True]
  note d = is_completed_total[OF wf_demo(2) cells_demo, of False]
  from s solved_full have "is_completed solved_game False = Inr True" by simp
  moreover from d demo_not_full have "is_completed demo False = Inr False" by simp
  ultimately show ?thesis using s by blast
qed

end
